theory Spec2Isabelle
  imports Main
begin

section \<open>Strings and names\<close>

text \<open>
  File names are byte strings, the UTF-8 encoding of Python's strings.  \<^verbatim>\<open>str.lower()\<close>
  lower-cases the ASCII letters.  Of the code points outside ASCII exactly two have a
  lower-case form that contains an ASCII character: the Kelvin sign U+212A (bytes E2 84 AA),
  which becomes \<^verbatim>\<open>k\<close>, and the dotted capital I U+0130 (bytes C4 B0), which becomes \<^verbatim>\<open>i\<close>
  followed by the combining dot U+0307 (bytes CC 87).  Both are modelled.  Every other code
  point outside ASCII has a lower-case form outside ASCII; its bytes are left as they are,
  which no comparison with a string of ASCII characters can tell apart.
\<close>

definition lower_char :: "char \<Rightarrow> char" where
  "lower_char c =
     (let n = (of_char c :: nat) in if 65 \<le> n \<and> n \<le> 90 then char_of (n + 32) else c)"

fun lower :: "string \<Rightarrow> string" where
  "lower [] = []"
| "lower (c # cs) =
     (if c = CHR 0xE2 \<and> take 2 cs = [CHR 0x84, CHR 0xAA] then CHR ''k'' # lower (drop 2 cs)
      else if c = CHR 0xC4 \<and> take 1 cs = [CHR 0xB0]
        then CHR ''i'' # CHR 0xCC # CHR 0x87 # lower (drop 1 cs)
      else lower_char c # lower cs)"

declare lower.simps [simp del]

text \<open>\<^verbatim>\<open>s.endswith(suf)\<close> and \<^verbatim>\<open>s.endswith((suf1, suf2, ...))\<close>.\<close>

definition endswith :: "string \<Rightarrow> string \<Rightarrow> bool" where
  "endswith s suf = (length suf \<le> length s \<and> drop (length s - length suf) s = suf)"

definition endswith_any :: "string \<Rightarrow> string list \<Rightarrow> bool" where
  "endswith_any s sufs = list_ex (endswith s) sufs"

text \<open>The two module constants, lines 13 and 14, exactly as written in the source.\<close>

definition IMAGE_EXTENSIONS :: "string list" where
  "IMAGE_EXTENSIONS = [''.jpg'', ''.jpeg'', ''.png'', ''.gif'', ''.bmp'', ''.tiff'', ''.heic'']"

definition VIDEO_EXTENSIONS :: "string list" where
  "VIDEO_EXTENSIONS = [''.mp4'', ''.mov'', ''.avi'', ''.mkv'', ''.wmv'', ''.flv'', ''.3gp'', ''mts'']"

text \<open>\<^verbatim>\<open>str(n)\<close> for an integer: decimal digits, no leading zero, a minus sign when negative.\<close>

definition digit_char :: "nat \<Rightarrow> char" where
  "digit_char d = char_of (48 + d)"

function str_nat :: "nat \<Rightarrow> string" where
  "str_nat n = (if n < 10 then [digit_char n] else str_nat (n div 10) @ [digit_char (n mod 10)])"
  by pat_completeness auto
termination
  by (relation "measure id") auto

declare str_nat.simps [simp del]

definition str_int :: "int \<Rightarrow> string" where
  "str_int i = (if i < 0 then CHR ''-'' # str_nat (nat (- i)) else str_nat (nat i))"

text \<open>
  \<^verbatim>\<open>os.path.splitext\<close> on a single path component: the extension starts at the last dot,
  unless everything before that dot is dots too (leading dots belong to the root).
\<close>

fun rfind_dot :: "string \<Rightarrow> nat option" where
  "rfind_dot [] = None"
| "rfind_dot (c # cs) =
     (case rfind_dot cs of
        Some i \<Rightarrow> Some (Suc i)
      | None \<Rightarrow> if c = CHR ''.'' then Some 0 else None)"

definition splitext :: "string \<Rightarrow> string \<times> string" where
  "splitext p =
     (case rfind_dot p of
        None \<Rightarrow> (p, [])
      | Some i \<Rightarrow>
          if list_ex (\<lambda>c. c \<noteq> CHR ''.'') (take i p) then (take i p, drop i p) else (p, []))"

text \<open>The f-string \<^verbatim>\<open>f"{name}_{count}{ext}"\<close> of lines 97 and 108.\<close>

definition numbered :: "string \<Rightarrow> nat \<Rightarrow> string \<Rightarrow> string" where
  "numbered name count ext = name @ ''_'' @ str_nat count @ ext"

section \<open>Paths and the file system\<close>

text \<open>
  A path is the list of its components below the root.  \<^verbatim>\<open>os.path.join(dir, name)\<close> with a
  single-component name appends the component, \<^verbatim>\<open>os.path.basename\<close> is the last component
  (empty for the root) and \<^verbatim>\<open>os.path.dirname\<close> drops it.
\<close>

type_synonym path = "string list"

definition join :: "path \<Rightarrow> string \<Rightarrow> path" where
  "join d n = d @ [n]"

definition basename :: "path \<Rightarrow> string" where
  "basename p = (if p = [] then [] else last p)"

definition dirname :: "path \<Rightarrow> path" where
  "dirname p = butlast p"

text \<open>
  A node is a regular file with its content and modification time (seconds since the epoch)
  or a directory.  The file system is an association list; its order is the order in which
  a directory listing returns the entries.  The root directory always exists.
\<close>

type_synonym bytes = string

datatype node = File bytes int | Dir

type_synonym filesystem = "(path \<times> node) list"

definition lookup :: "filesystem \<Rightarrow> path \<Rightarrow> node option" where
  "lookup fs p = (if p = [] then Some Dir else map_of fs p)"

definition remove :: "path \<Rightarrow> filesystem \<Rightarrow> filesystem" where
  "remove p fs = filter (\<lambda>e. fst e \<noteq> p) fs"

definition put :: "path \<Rightarrow> node \<Rightarrow> filesystem \<Rightarrow> filesystem" where
  "put p n fs = remove p fs @ [(p, n)]"

text \<open>Exceptions are values.  All of them are subclasses of \<^verbatim>\<open>Exception\<close>.\<close>

datatype error =
    OSError
  | FileNotFoundError
  | FileExistsError
  | NotADirectoryError
  | IsADirectoryError
  | ShutilError
  | LibraryError
  | ValueError
  | NullStreamError
  | InputStreamError

text \<open>
  What the program prints, one constructor for each \<^verbatim>\<open>print\<close> statement, carrying the
  interpolated values (lines 32, 52, 100, 111, 114, 116, 126-130, 133, 167-172).
\<close>

datatype event =
    HashError path error
  | DuplicateCheckError path path error
  | DuplicateMoved path path
  | ConflictMoved path path
  | Moved nat path path
  | MoveError path error
  | InitialCounts nat nat nat nat
  | SourceMissing path
  | PostCounts int nat nat int int

text \<open>The calls that touch file content or change the file system, in the order made.\<close>

datatype syscall = SysOpen path | SysMove path path | SysMakedirs path

record datetime =
  year :: int
  month :: nat
  day :: nat

record stat_result =
  st_isdir :: bool
  st_size :: nat
  st_mtime :: int

text \<open>
  The environment: the libraries the program calls, taken as parameters, and the faults of
  the operating system (a permission that is missing, a device error), each a predicate on
  the paths involved.
\<close>

datatype parser = Parser path

type_synonym metadata = "(string \<times> datetime) list"

record env =
  stat_fails :: "path \<Rightarrow> bool"
  open_fails :: "path \<Rightarrow> bool"
  move_fails :: "path \<Rightarrow> path \<Rightarrow> bool"
  mkdir_fails :: "path \<Rightarrow> bool"
  dir_size :: "path \<Rightarrow> nat"
  dir_mtime :: "path \<Rightarrow> int"
  sha256_hexdigest :: "bytes \<Rightarrow> string"
  fromtimestamp :: "int \<Rightarrow> error + datetime"
  getexif :: "filesystem \<Rightarrow> path \<Rightarrow> error + (int \<times> string) list option"
  TAGS :: "int \<Rightarrow> string option"
  strptime :: "string \<Rightarrow> error + datetime"
  createParser :: "filesystem \<Rightarrow> path \<Rightarrow> error + parser option"
  extractMetadata :: "filesystem \<Rightarrow> parser \<Rightarrow> error + metadata option"

record world =
  fs :: filesystem
  out :: "event list"
  trace :: "syscall list"

definition emit :: "event \<Rightarrow> world \<Rightarrow> world" where
  "emit e w = w\<lparr>out := out w @ [e]\<rparr>"

definition called :: "syscall \<Rightarrow> world \<Rightarrow> world" where
  "called c w = w\<lparr>trace := trace w @ [c]\<rparr>"

subsection \<open>Operating system calls\<close>

definition os_stat :: "env \<Rightarrow> filesystem \<Rightarrow> path \<Rightarrow> error + stat_result" where
  "os_stat env f p =
     (if stat_fails env p then Inl OSError
      else case lookup f p of
             None \<Rightarrow> Inl FileNotFoundError
           | Some (File c t) \<Rightarrow> Inr \<lparr>st_isdir = False, st_size = length c, st_mtime = t\<rparr>
           | Some Dir \<Rightarrow> Inr \<lparr>st_isdir = True, st_size = dir_size env p, st_mtime = dir_mtime env p\<rparr>)"

text \<open>\<^verbatim>\<open>os.path.exists\<close> and \<^verbatim>\<open>os.path.isdir\<close> answer False when the stat fails.\<close>

definition exists :: "env \<Rightarrow> filesystem \<Rightarrow> path \<Rightarrow> bool" where
  "exists env f p = (case os_stat env f p of Inl e \<Rightarrow> False | Inr st \<Rightarrow> True)"

definition isdir :: "env \<Rightarrow> filesystem \<Rightarrow> path \<Rightarrow> bool" where
  "isdir env f p = (case os_stat env f p of Inl e \<Rightarrow> False | Inr st \<Rightarrow> st_isdir st)"

definition getsize :: "env \<Rightarrow> filesystem \<Rightarrow> path \<Rightarrow> error + nat" where
  "getsize env f p = (case os_stat env f p of Inl e \<Rightarrow> Inl e | Inr st \<Rightarrow> Inr (st_size st))"

definition getmtime :: "env \<Rightarrow> filesystem \<Rightarrow> path \<Rightarrow> error + int" where
  "getmtime env f p = (case os_stat env f p of Inl e \<Rightarrow> Inl e | Inr st \<Rightarrow> Inr (st_mtime st))"

text \<open>\<^verbatim>\<open>open(path, 'rb')\<close> followed by reading: the content, or the exception.\<close>

definition open_read :: "env \<Rightarrow> filesystem \<Rightarrow> path \<Rightarrow> error + bytes" where
  "open_read env f p =
     (if open_fails env p then Inl OSError
      else case lookup f p of
             None \<Rightarrow> Inl FileNotFoundError
           | Some Dir \<Rightarrow> Inl IsADirectoryError
           | Some (File c t) \<Rightarrow> Inr c)"

section \<open>Content comparison\<close>

text \<open>
  The loop of \<^verbatim>\<open>calculate_file_hash\<close>: \<^verbatim>\<open>while chunk := f.read(chunk_size): sha256.update(chunk)\<close>.
  The state of the hash object is the bytes fed to it so far; its digest is the digest of
  their concatenation.
\<close>

function read_chunks :: "nat \<Rightarrow> bytes \<Rightarrow> bytes \<Rightarrow> bytes" where
  "read_chunks chunk_size rest fed =
     (if take chunk_size rest = [] then fed
      else read_chunks chunk_size (drop chunk_size rest) (fed @ take chunk_size rest))"
  by pat_completeness auto
termination
  by (relation "measure (\<lambda>(n, rest, fed). length rest)") auto

declare read_chunks.simps [simp del]

definition calculate_file_hash :: "env \<Rightarrow> world \<Rightarrow> path \<Rightarrow> nat \<Rightarrow> string option \<times> world" where
  "calculate_file_hash env w filepath chunk_size =
     (let w1 = called (SysOpen filepath) w in
      case open_read env (fs w1) filepath of
        Inl e \<Rightarrow> (None, emit (HashError filepath e) w1)
      | Inr c \<Rightarrow> (Some (sha256_hexdigest env (read_chunks chunk_size c [])), w1))"

text \<open>\<^verbatim>\<open>not h\<close> for a value that is None or a string.\<close>

definition falsy :: "string option \<Rightarrow> bool" where
  "falsy h = (case h of None \<Rightarrow> True | Some s \<Rightarrow> s = [])"

definition is_duplicate :: "env \<Rightarrow> world \<Rightarrow> path \<Rightarrow> path \<Rightarrow> bool \<times> world" where
  "is_duplicate env w file1 file2 =
     (case getsize env (fs w) file1 of
        Inl e \<Rightarrow> (False, emit (DuplicateCheckError file1 file2 e) w)
      | Inr s1 \<Rightarrow>
         (case getsize env (fs w) file2 of
            Inl e \<Rightarrow> (False, emit (DuplicateCheckError file1 file2 e) w)
          | Inr s2 \<Rightarrow>
             if s1 \<noteq> s2 then (False, w)
             else
               let (hash1, w1) = calculate_file_hash env w file1 8192;
                   (hash2, w2) = calculate_file_hash env w1 file2 8192
               in if falsy hash1 \<or> falsy hash2 then (False, w2) else (hash1 = hash2, w2)))"

section \<open>Year resolution\<close>

definition fallback_year :: "env \<Rightarrow> world \<Rightarrow> path \<Rightarrow> error + int" where
  "fallback_year env w filepath =
     (case getmtime env (fs w) filepath of
        Inl e \<Rightarrow> Inl e
      | Inr mod_time \<Rightarrow>
         (case fromtimestamp env mod_time of Inl e \<Rightarrow> Inl e | Inr dt \<Rightarrow> Inr (year dt)))"

text \<open>
  The loop over the EXIF items of \<^verbatim>\<open>get_image_year\<close>: None when it ends without a
  return, otherwise what the first \<^verbatim>\<open>DateTimeOriginal\<close> item gives, a year or the exception
  of \<^verbatim>\<open>strptime\<close>.
\<close>

fun exif_loop :: "env \<Rightarrow> (int \<times> string) list \<Rightarrow> (error + int) option" where
  "exif_loop env [] = None"
| "exif_loop env ((tag_id, v) # items) =
     (if TAGS env tag_id = Some ''DateTimeOriginal''
      then (case strptime env v of Inl e \<Rightarrow> Some (Inl e) | Inr dt \<Rightarrow> Some (Inr (year dt)))
      else exif_loop env items)"

text \<open>The \<^verbatim>\<open>try\<close> block of \<^verbatim>\<open>get_image_year\<close>: the year it returns, or None when it falls through
  (no data, no tag, or an exception, which is swallowed).\<close>

definition image_try :: "env \<Rightarrow> world \<Rightarrow> path \<Rightarrow> int option" where
  "image_try env w filepath =
     (case getexif env (fs w) filepath of
        Inl e \<Rightarrow> None
      | Inr None \<Rightarrow> None
      | Inr (Some exif_data) \<Rightarrow>
         (case exif_loop env exif_data of
            None \<Rightarrow> None
          | Some (Inl e) \<Rightarrow> None
          | Some (Inr y) \<Rightarrow> Some y))"

definition get_image_year :: "env \<Rightarrow> world \<Rightarrow> path \<Rightarrow> error + int" where
  "get_image_year env w filepath =
     (case image_try env w filepath of
        Some y \<Rightarrow> Inr y
      | None \<Rightarrow> fallback_year env w filepath)"

text \<open>
  \<^verbatim>\<open>get_video_year\<close>.  The call of \<^verbatim>\<open>createParser\<close> on line 69 stands before the \<^verbatim>\<open>try\<close>:
  an exception it raises leaves the function.  The \<^verbatim>\<open>try\<close> of lines 72-80 swallows what
  \<^verbatim>\<open>extractMetadata\<close> raises.
\<close>

definition get_video_year :: "env \<Rightarrow> world \<Rightarrow> path \<Rightarrow> error + int" where
  "get_video_year env w filepath =
     (case createParser env (fs w) filepath of
        Inl e \<Rightarrow> Inl e
      | Inr None \<Rightarrow> fallback_year env w filepath
      | Inr (Some parser) \<Rightarrow>
         (case extractMetadata env (fs w) parser of
            Inl e \<Rightarrow> fallback_year env w filepath
          | Inr None \<Rightarrow> fallback_year env w filepath
          | Inr (Some metadata) \<Rightarrow>
             (case map_of metadata ''creation_date'' of
                Some dt \<Rightarrow> Inr (year dt)
              | None \<Rightarrow> fallback_year env w filepath)))"

section \<open>Moving files and making directories\<close>

text \<open>
  \<^verbatim>\<open>os.mkdir\<close>: the directory must not exist and its parent must be a directory.
\<close>

definition mkdir :: "env \<Rightarrow> filesystem \<Rightarrow> path \<Rightarrow> error + filesystem" where
  "mkdir env f p =
     (if mkdir_fails env p then Inl OSError
      else if lookup f p \<noteq> None then Inl FileExistsError
      else case lookup f (dirname p) of
             None \<Rightarrow> Inl FileNotFoundError
           | Some (File c t) \<Rightarrow> Inl NotADirectoryError
           | Some Dir \<Rightarrow> Inr (f @ [(p, Dir)]))"

text \<open>
  \<^verbatim>\<open>os.makedirs(name, exist_ok=True)\<close> as the standard library writes it: make the parent
  first when it does not exist (ignoring FileExistsError from that call), then the directory
  itself, and accept the failure of that last step when the directory is there.  The result
  is the exception raised, if any, and the file system as the call leaves it: directories
  made before a failure stay.
\<close>

function makedirs :: "env \<Rightarrow> filesystem \<Rightarrow> path \<Rightarrow> error option \<times> filesystem" where
  "makedirs env f name =
     (case (if name \<noteq> [] \<and> \<not> exists env f (dirname name)
            then (case makedirs env f (dirname name) of
                    (Some e, f') \<Rightarrow> if e = FileExistsError then (None, f') else (Some e, f')
                  | (None, f') \<Rightarrow> (None, f'))
            else (None, f)) of
        (Some e, f1) \<Rightarrow> (Some e, f1)
      | (None, f1) \<Rightarrow>
         (case mkdir env f1 name of
            Inr f2 \<Rightarrow> (None, f2)
          | Inl e \<Rightarrow> if isdir env f1 name then (None, f1) else (Some e, f1)))"
  by pat_completeness auto
termination
  by (relation "measure (\<lambda>(env, f, name). length name)") (auto simp: dirname_def)

declare makedirs.simps [simp del]

text \<open>
  \<^verbatim>\<open>shutil.move(src, dst)\<close>.  A destination that is a directory receives the source under
  its basename, unless that name is taken.  Otherwise the source is renamed: a regular file
  replaces a regular file at the destination, as \<^verbatim>\<open>os.rename\<close> does; a directory moves with
  everything below it, onto nothing or onto an empty directory.  A move that fails leaves
  the file system as it was.
\<close>

definition rekey :: "path \<Rightarrow> path \<Rightarrow> path \<times> node \<Rightarrow> path \<times> node" where
  "rekey src dst e =
     (if take (length src) (fst e) = src then (dst @ drop (length src) (fst e), snd e) else e)"

definition has_entries :: "filesystem \<Rightarrow> path \<Rightarrow> bool" where
  "has_entries f d = list_ex (\<lambda>e. fst e \<noteq> [] \<and> butlast (fst e) = d) f"

definition shutil_move :: "env \<Rightarrow> filesystem \<Rightarrow> path \<Rightarrow> path \<Rightarrow> error + filesystem" where
  "shutil_move env f src dst =
     (if move_fails env src dst then Inl OSError
      else case lookup f src of
        None \<Rightarrow> Inl FileNotFoundError
      | Some n \<Rightarrow>
         (let real_dst = (if isdir env f dst then join dst (basename src) else dst) in
          if isdir env f dst \<and> exists env f real_dst then Inl ShutilError
          else if src = [] \<or> real_dst = [] then Inl OSError
          else case lookup f (dirname real_dst) of
            None \<Rightarrow> Inl FileNotFoundError
          | Some (File c t) \<Rightarrow> Inl NotADirectoryError
          | Some Dir \<Rightarrow>
             (case n of
                File c t \<Rightarrow>
                  (if lookup f real_dst = Some Dir then Inl IsADirectoryError
                   else Inr (put real_dst n (remove src f)))
              | Dir \<Rightarrow>
                  (if take (length src) real_dst = src then Inl ShutilError
                   else case lookup f real_dst of
                     Some (File c t) \<Rightarrow> Inl NotADirectoryError
                   | Some Dir \<Rightarrow>
                       if has_entries f real_dst then Inl FileExistsError
                       else Inr (map (rekey src real_dst) (remove real_dst f))
                   | None \<Rightarrow> Inr (map (rekey src real_dst) f)))))"

section \<open>Collision-safe names\<close>

text \<open>
  The search for a free name runs over the names \<^verbatim>\<open>name_1.ext\<close>, \<^verbatim>\<open>name_2.ext\<close>, ...
  These are pairwise different, and a file system holds finitely many entries, so the
  search ends; the facts below are what its termination proof needs.
\<close>

lemma digit_char_inj: "a < 10 \<Longrightarrow> b < 10 \<Longrightarrow> digit_char a = digit_char b \<Longrightarrow> a = b"
  by (simp add: digit_char_def char_of_eq_iff take_bit_eq_mod)

lemma str_nat_nonempty: "str_nat n \<noteq> []"
  by (subst str_nat.simps) simp

lemma str_nat_inj: "str_nat a = str_nat b \<Longrightarrow> a = b"
proof (induction a arbitrary: b rule: str_nat.induct)
  case (1 n)
  show ?case
  proof (cases "n < 10")
    case True
    show ?thesis
    proof (cases "b < 10")
      case b: True
      from "1.prems" True b have "digit_char n = digit_char b"
        by (simp add: str_nat.simps[of n] str_nat.simps[of b])
      with True b show ?thesis using digit_char_inj by blast
    next
      case b: False
      from "1.prems" True b have "[digit_char n] = str_nat (b div 10) @ [digit_char (b mod 10)]"
        by (simp add: str_nat.simps[of n] str_nat.simps[of b])
      then have "str_nat (b div 10) = []"
        by (metis butlast_snoc butlast.simps(2))
      then show ?thesis using str_nat_nonempty by blast
    qed
  next
    case False
    show ?thesis
    proof (cases "b < 10")
      case b: True
      from "1.prems" False b have "str_nat (n div 10) @ [digit_char (n mod 10)] = [digit_char b]"
        by (simp add: str_nat.simps[of n] str_nat.simps[of b])
      then have "str_nat (n div 10) = []"
        by (metis butlast_snoc butlast.simps(2))
      then show ?thesis using str_nat_nonempty by blast
    next
      case b: False
      from "1.prems" False b
      have "str_nat (n div 10) @ [digit_char (n mod 10)]
            = str_nat (b div 10) @ [digit_char (b mod 10)]"
        by (simp add: str_nat.simps[of n] str_nat.simps[of b])
      then have "str_nat (n div 10) = str_nat (b div 10)"
        and d: "digit_char (n mod 10) = digit_char (b mod 10)"
        by simp_all
      with "1.IH"[OF False] have "n div 10 = b div 10" by blast
      moreover from d have "n mod 10 = b mod 10" by (intro digit_char_inj) simp_all
      ultimately show ?thesis by (metis div_mult_mod_eq)
    qed
  qed
qed

lemma numbered_inj: "numbered name a ext = numbered name b ext \<Longrightarrow> a = b"
  by (simp add: numbered_def str_nat_inj)

lemma exists_lookup: "exists env f p \<Longrightarrow> lookup f p \<noteq> None"
  by (auto simp: exists_def os_stat_def split: if_splits option.splits)

lemma exists_in_keys: "exists env f (join d n) \<Longrightarrow> join d n \<in> fst ` set f"
  using exists_lookup[of env f "join d n"]
  by (auto simp: lookup_def join_def map_of_eq_None_iff)

lemma finite_taken: "finite {k. exists env f (join folder (numbered name k ext))}"
proof -
  let ?g = "\<lambda>k. join folder (numbered name k ext)"
  have "inj ?g" by (auto simp: inj_on_def join_def dest: numbered_inj)
  then have "finite (?g -` (fst ` set f))" by (intro finite_vimageI) simp_all
  moreover have "{k. exists env f (?g k)} \<subseteq> ?g -` (fst ` set f)"
    using exists_in_keys by auto
  ultimately show ?thesis by (rule rev_finite_subset)
qed

lemma taken_step:
  "card {k. Suc c \<le> k \<and> exists env f (join folder (numbered name k ext))}
     + (if exists env f (join folder (numbered name c ext)) then 1 else 0)
   = card {k. c \<le> k \<and> exists env f (join folder (numbered name k ext))}"
proof -
  let ?E = "\<lambda>k. exists env f (join folder (numbered name k ext))"
  have fin: "finite {k. Suc c \<le> k \<and> ?E k}"
    by (rule finite_subset[OF _ finite_taken[of env f folder name ext]]) auto
  show ?thesis
  proof (cases "?E c")
    case True
    then have "{k. c \<le> k \<and> ?E k} = insert c {k. Suc c \<le> k \<and> ?E k}"
      by (auto simp: Suc_le_eq le_less)
    with fin True show ?thesis by simp
  next
    case False
    then have "{k. c \<le> k \<and> ?E k} = {k. Suc c \<le> k \<and> ?E k}"
      by (auto simp: Suc_le_eq le_less)
    with False show ?thesis by simp
  qed
qed

text \<open>
  The two \<^verbatim>\<open>while os.path.exists(...)\<close> loops of \<^verbatim>\<open>move_file_safe\<close> (lines 96-98 and
  107-109): the candidate path and the counter, as they are when the loop ends.
\<close>

function next_free ::
  "env \<Rightarrow> filesystem \<Rightarrow> path \<Rightarrow> string \<Rightarrow> string \<Rightarrow> path \<Rightarrow> nat \<Rightarrow> path \<times> nat" where
  "next_free env f folder name ext cur count =
     (if exists env f cur
      then next_free env f folder name ext (join folder (numbered name count ext)) (count + 1)
      else (cur, count))"
  by pat_completeness auto
termination
proof (relation "measure (\<lambda>(env, f, folder, name, ext, cur, count).
         card {k. count \<le> k \<and> exists env f (join folder (numbered name k ext))}
         + (if exists env f cur then 1 else 0))", goal_cases)
  case 1
  show ?case by simp
next
  case (2 env f folder name ext cur count)
  then show ?case using taken_step[of count env f folder name ext] by simp
qed

declare next_free.simps [simp del]

section \<open>Relocation\<close>

text \<open>
  The body of the \<^verbatim>\<open>try\<close> of \<^verbatim>\<open>move_file_safe\<close>: the exception that leaves it, if any, and
  the world at that moment.
\<close>

definition move_file_safe_try ::
  "env \<Rightarrow> world \<Rightarrow> path \<Rightarrow> path \<Rightarrow> path \<Rightarrow> nat \<Rightarrow> error option \<times> world" where
  "move_file_safe_try env w src_path dest_path duplicates_folder count =
     (if exists env (fs w) dest_path then
        (let (dup, w1) = is_duplicate env w src_path dest_path in
         if dup then
           (let w2 = called (SysMakedirs duplicates_folder) w1 in
            case makedirs env (fs w2) duplicates_folder of
              (Some e, f3) \<Rightarrow> (Some e, w2\<lparr>fs := f3\<rparr>)
            | (None, f3) \<Rightarrow>
               (let (name, ext) = splitext (basename src_path);
                    (duplicate_dest, c) =
                       next_free env f3 duplicates_folder name ext
                         (join duplicates_folder (basename src_path)) 1;
                    w3 = called (SysMove src_path duplicate_dest) (w2\<lparr>fs := f3\<rparr>)
                in case shutil_move env f3 src_path duplicate_dest of
                     Inl e \<Rightarrow> (Some e, w3)
                   | Inr f4 \<Rightarrow>
                       (None, emit (DuplicateMoved src_path duplicate_dest) (w3\<lparr>fs := f4\<rparr>))))
         else
           (let dest_folder = dirname dest_path;
                (name, ext) = splitext (basename dest_path);
                (new_dest_path, c) = next_free env (fs w1) dest_folder name ext dest_path 1;
                w2 = called (SysMove src_path new_dest_path) w1
            in case shutil_move env (fs w1) src_path new_dest_path of
                 Inl e \<Rightarrow> (Some e, w2)
               | Inr f3 \<Rightarrow>
                   (None, emit (ConflictMoved src_path new_dest_path) (w2\<lparr>fs := f3\<rparr>))))
      else
        (let w1 = called (SysMove src_path dest_path) w in
         case shutil_move env (fs w) src_path dest_path of
           Inl e \<Rightarrow> (Some e, w1)
         | Inr f1 \<Rightarrow> (None, emit (Moved count src_path dest_path) (w1\<lparr>fs := f1\<rparr>))))"

text \<open>
  \<^verbatim>\<open>move_file_safe\<close>: the \<^verbatim>\<open>except Exception\<close> clause prints and returns.  The first
  component of the result is the exception that leaves the function.
\<close>

definition move_file_safe ::
  "env \<Rightarrow> world \<Rightarrow> path \<Rightarrow> path \<Rightarrow> path \<Rightarrow> nat \<Rightarrow> error option \<times> world" where
  "move_file_safe env w src_path dest_path duplicates_folder count =
     (case move_file_safe_try env w src_path dest_path duplicates_folder count of
        (None, w') \<Rightarrow> (None, w')
      | (Some e, w') \<Rightarrow> (None, emit (MoveError src_path e) w'))"

section \<open>Walking the source tree\<close>

text \<open>
  \<^verbatim>\<open>os.scandir\<close> as \<^verbatim>\<open>os.walk\<close> uses it: the names of the sub-directories and of the other
  entries of a directory, None when the directory cannot be listed.
\<close>

definition scandir :: "filesystem \<Rightarrow> path \<Rightarrow> (string list \<times> string list) option" where
  "scandir f tp =
     (case lookup f tp of
        Some Dir \<Rightarrow>
          (let entries = filter (\<lambda>e. fst e \<noteq> [] \<and> butlast (fst e) = tp) f
           in Some (map (\<lambda>e. last (fst e)) (filter (\<lambda>e. snd e = Dir) entries),
                    map (\<lambda>e. last (fst e)) (filter (\<lambda>e. snd e \<noteq> Dir) entries)))
      | Some (File c t) \<Rightarrow> None
      | None \<Rightarrow> None)"

text \<open>The entries strictly below a directory: their number is what decreases along a walk.\<close>

definition below :: "path \<Rightarrow> path \<times> node \<Rightarrow> bool" where
  "below tp e = (\<exists>r. r \<noteq> [] \<and> fst e = tp @ r)"

lemma scandir_dirs_entry:
  assumes "scandir f tp = Some (dirs, files)" and "d \<in> set dirs"
  shows "\<exists>e \<in> set f. fst e = join tp d"
proof -
  from assms obtain e where "e \<in> set f" "fst e \<noteq> []" "butlast (fst e) = tp" "last (fst e) = d"
    by (auto simp: scandir_def Let_def split: option.splits node.splits)
  then show ?thesis
    by (metis append_butlast_last_id join_def)
qed

lemma below_child_less:
  assumes "e \<in> set f" and "fst e = join tp d"
  shows "length (filter (below (join tp d)) f) < length (filter (below tp) f)"
proof -
  have "\<And>x. below (join tp d) x \<Longrightarrow> below tp x"
    by (auto simp: below_def join_def)
  then have sub: "filter (below (join tp d)) f = filter (below (join tp d)) (filter (below tp) f)"
    by (auto intro: filter_cong)
  have "e \<in> set (filter (below tp) f)" using assms by (simp add: below_def join_def)
  moreover have "\<not> below (join tp d) e" using assms by (simp add: below_def)
  ultimately have "length (filter (below (join tp d)) (filter (below tp) f))
                   < length (filter (below tp) f)"
    by (rule length_filter_less)
  with sub show ?thesis by simp
qed

text \<open>
  \<^verbatim>\<open>os.walk(tp)\<close> over a file system that does not change during the walk: the triples it
  yields, top down, errors of the listing ignored.
\<close>

function walk :: "filesystem \<Rightarrow> path \<Rightarrow> (path \<times> string list \<times> string list) list" where
  "walk f tp =
     (case scandir f tp of
        None \<Rightarrow> []
      | Some (dirs, files) \<Rightarrow> (tp, dirs, files) # concat (map (\<lambda>d. walk f (join tp d)) dirs))"
  by pat_completeness auto
termination
proof (relation "measure (\<lambda>(f, tp). length (filter (below tp) f))", goal_cases)
  case 1
  show ?case by simp
next
  case (2 f tp x2 dirs files d)
  then show ?case
    using scandir_dirs_entry[of f tp dirs files d] below_child_less[of _ f tp d] by auto
qed

declare walk.simps [simp del]


definition count_files_in_directory :: "filesystem \<Rightarrow> path \<Rightarrow> nat" where
  "count_files_in_directory f directory =
     foldl (\<lambda>total (root, dirs, files). total + length files) 0 (walk f directory)"

section \<open>The run\<close>

text \<open>
  Lines 152-157, the common end of the two branches of the loop body: make the year folder,
  count the file, relocate it.  A result is the exception that leaves the code, if any, the
  world and the counter.
\<close>

definition place_in_year_folder ::
  "env \<Rightarrow> world \<Rightarrow> nat \<Rightarrow> path \<Rightarrow> string \<Rightarrow> path \<Rightarrow> path \<Rightarrow> int
     \<Rightarrow> error option \<times> world \<times> nat" where
  "place_in_year_folder env w count src_path file base_dest duplicate_dest yr =
     (let year_folder = join base_dest (str_int yr);
          w1 = called (SysMakedirs year_folder) w
      in case makedirs env (fs w1) year_folder of
           (Some e, f') \<Rightarrow> (Some e, w1\<lparr>fs := f'\<rparr>, count)
         | (None, f') \<Rightarrow>
            (let dest_path = join year_folder file;
                 count' = count + 1;
                 (r, w2) = move_file_safe env (w1\<lparr>fs := f'\<rparr>) src_path dest_path duplicate_dest count'
             in (r, w2, count')))"

text \<open>The body of the inner loop, lines 138-157, for one file name of one directory.\<close>

definition process_file ::
  "env \<Rightarrow> path \<Rightarrow> path \<Rightarrow> path \<Rightarrow> path \<Rightarrow> string \<Rightarrow> world \<times> nat
     \<Rightarrow> error option \<times> world \<times> nat" where
  "process_file env photo_dest_folder video_dest_folder duplicate_root root file s =
     (let (w, count) = s;
          file_lower = lower file;
          src_path = join root file
      in if endswith_any file_lower IMAGE_EXTENSIONS then
           (case get_image_year env w src_path of
              Inl e \<Rightarrow> (Some e, w, count)
            | Inr yr \<Rightarrow>
                place_in_year_folder env w count src_path file photo_dest_folder
                  (join (join duplicate_root ''Photo'') (str_int yr)) yr)
         else if endswith_any file_lower VIDEO_EXTENSIONS then
           (case get_video_year env w src_path of
              Inl e \<Rightarrow> (Some e, w, count)
            | Inr yr \<Rightarrow>
                place_in_year_folder env w count src_path file video_dest_folder
                  (join (join duplicate_root ''Video'') (str_int yr)) yr)
         else (None, w, count))"

fun process_files ::
  "env \<Rightarrow> path \<Rightarrow> path \<Rightarrow> path \<Rightarrow> path \<Rightarrow> string list \<Rightarrow> world \<times> nat
     \<Rightarrow> error option \<times> world \<times> nat" where
  "process_files env photo video dup root [] s = (None, fst s, snd s)"
| "process_files env photo video dup root (file # files) s =
     (case process_file env photo video dup root file s of
        (Some e, w, count) \<Rightarrow> (Some e, w, count)
      | (None, w, count) \<Rightarrow> process_files env photo video dup root files (w, count))"

text \<open>
  The outer loop, \<^verbatim>\<open>for root, _, files in os.walk(source_folder)\<close>.  The walk is lazy: a
  directory is listed when the walk reaches it, after the files of the directories before it
  have been moved.  \<^term>\<open>pending\<close> holds the directories still to visit.
\<close>

partial_function (option) walk_loop ::
  "env \<Rightarrow> path \<Rightarrow> path \<Rightarrow> path \<Rightarrow> path list \<Rightarrow> world \<times> nat
     \<Rightarrow> (error option \<times> world \<times> nat) option" where
  "walk_loop env photo video dup pending s =
     (case pending of
        [] \<Rightarrow> Some (None, fst s, snd s)
      | root # rest \<Rightarrow>
         (case scandir (fs (fst s)) root of
            None \<Rightarrow> walk_loop env photo video dup rest s
          | Some (dirs, files) \<Rightarrow>
             (case process_files env photo video dup root files s of
                (Some e, w, count) \<Rightarrow> Some (Some e, w, count)
              | (None, w, count) \<Rightarrow>
                  walk_loop env photo video dup (map (join root) dirs @ rest) (w, count))))"

declare walk_loop.simps [code]

definition copy_media_sorted_by_year ::
  "env \<Rightarrow> world \<Rightarrow> path \<Rightarrow> path \<Rightarrow> path \<Rightarrow> path \<Rightarrow> (error option \<times> world) option" where
  "copy_media_sorted_by_year env w source_folder photo_dest_folder video_dest_folder duplicate_root =
     (let source_file_count = count_files_in_directory (fs w) source_folder;
          pre_photo_count = count_files_in_directory (fs w) photo_dest_folder;
          pre_video_count = count_files_in_directory (fs w) video_dest_folder;
          pre_duplicate_count = count_files_in_directory (fs w) duplicate_root;
          pre_sorted_count = pre_duplicate_count + pre_video_count + pre_photo_count;
          w1 = emit (InitialCounts source_file_count pre_photo_count pre_video_count
                       pre_duplicate_count) w
      in if \<not> isdir env (fs w1) source_folder then Some (None, emit (SourceMissing source_folder) w1)
         else
           (case walk_loop env photo_dest_folder video_dest_folder duplicate_root
                   [source_folder] (w1, 0) of
              None \<Rightarrow> None
            | Some (Some e, w2, count) \<Rightarrow> Some (Some e, w2)
            | Some (None, w2, count) \<Rightarrow>
               (let post_photo_count = count_files_in_directory (fs w2) photo_dest_folder;
                    post_video_count = count_files_in_directory (fs w2) video_dest_folder;
                    post_duplicate_count = count_files_in_directory (fs w2) duplicate_root;
                    post_total_sorted_files =
                      post_photo_count + post_video_count + post_duplicate_count;
                    moved_files = int post_total_sorted_files
                      - int (pre_photo_count + pre_video_count + pre_duplicate_count);
                    check = int source_file_count - moved_files
                in Some (None, emit (PostCounts moved_files pre_sorted_count post_total_sorted_files
                            (int post_duplicate_count - int pre_duplicate_count) check) w2))))"

section \<open>Classification\<close>

text \<open>
  The program has no classifier of its own: the kind of a file is the branch that the tests
  of lines 141, 145 and 149 select.  \<^term>\<open>process_file\<close> makes the same tests.
\<close>

datatype kind = Photo | Video | Ignored

definition classify :: "string \<Rightarrow> kind" where
  "classify file =
     (let file_lower = lower file
      in if endswith_any file_lower IMAGE_EXTENSIONS then Photo
         else if endswith_any file_lower VIDEO_EXTENSIONS then Video
         else Ignored)"

section \<open>An environment and worlds for the examples\<close>

text \<open>
  \<^verbatim>\<open>datetime.fromtimestamp\<close> in UTC: the civil date of a day number, in the proleptic
  Gregorian calendar.
\<close>

definition civil_from_days :: "int \<Rightarrow> datetime" where
  "civil_from_days days =
     (let z = days + 719468;
          era = z div 146097;
          doe = z mod 146097;
          yoe = (doe - doe div 1460 + doe div 36524 - doe div 146096) div 365;
          doy = doe - (365 * yoe + yoe div 4 - yoe div 100);
          mp = (5 * doy + 2) div 153;
          d = doy - (153 * mp + 2) div 5 + 1;
          m = (if mp < 10 then mp + 3 else mp - 9);
          y = yoe + era * 400
      in \<lparr>year = (if m \<le> 2 then y + 1 else y), month = nat m, day = nat d\<rparr>)"

definition utc_fromtimestamp :: "int \<Rightarrow> error + datetime" where
  "utc_fromtimestamp t = Inr (civil_from_days (t div 86400))"

text \<open>
  An environment without faults, in which no file carries metadata.  Its digest is
  injective, so that equal digests mean equal content.
\<close>

definition plain_env :: env where
  "plain_env =
     \<lparr>stat_fails = (\<lambda>p. False), open_fails = (\<lambda>p. False), move_fails = (\<lambda>s d. False),
      mkdir_fails = (\<lambda>p. False), dir_size = (\<lambda>p. 64), dir_mtime = (\<lambda>p. 0),
      sha256_hexdigest = (\<lambda>c. CHR ''#'' # c), fromtimestamp = utc_fromtimestamp,
      getexif = (\<lambda>f p. Inr None),
      TAGS = (\<lambda>n. if n = 36867 then Some ''DateTimeOriginal'' else None),
      strptime = (\<lambda>s. Inl ValueError), createParser = (\<lambda>f p. Inr None),
      extractMetadata = (\<lambda>f p. Inr None)\<rparr>"

definition two_copies :: world where
  "two_copies =
     \<lparr>fs = [([''a''], File ''xyz'' 0), ([''b''], File ''xyz'' 5), ([''c''], File ''longer'' 0)],
      out = [], trace = []\<rparr>"

definition one_clip :: world where
  "one_clip = \<lparr>fs = [([''src''], Dir), ([''src'', ''clip.mp4''], File ''data'' 1622505600)],
               out = [], trace = []\<rparr>"

definition one_stmts :: world where
  "one_stmts = \<lparr>fs = [([''src''], Dir), ([''src'', ''stmts''], File ''hello'' 1622505600)],
                out = [], trace = []\<rparr>"

section \<open>Properties of the content comparison\<close>

lemma read_chunks_all: "0 < n \<Longrightarrow> read_chunks n rest fed = fed @ rest"
proof (induction n rest fed rule: read_chunks.induct)
  case (1 n rest fed)
  show ?case
  proof (cases "take n rest = []")
    case True
    with "1.prems" have "rest = []" by simp
    then show ?thesis by (subst read_chunks.simps) simp
  next
    case False
    with "1.IH" "1.prems"
    have "read_chunks n (drop n rest) (fed @ take n rest) = (fed @ take n rest) @ drop n rest"
      by simp
    with False show ?thesis by (subst read_chunks.simps) simp
  qed
qed

lemma calculate_file_hash_fs [simp]: "fs (snd (calculate_file_hash env w p n)) = fs w"
  by (simp add: calculate_file_hash_def called_def emit_def Let_def split: sum.splits)

lemma calculate_file_hash_value:
  "fst (calculate_file_hash env w p n) =
     (case open_read env (fs w) p of
        Inl e \<Rightarrow> None
      | Inr c \<Rightarrow> Some (sha256_hexdigest env (read_chunks n c [])))"
  by (simp add: calculate_file_hash_def called_def Let_def split: sum.splits)

text \<open>The answer of \<^term>\<open>is_duplicate\<close> in terms of the sizes, the contents and the digest.\<close>

lemma is_duplicate_value:
  "fst (is_duplicate env w a b) =
     (case getsize env (fs w) a of
        Inl e \<Rightarrow> False
      | Inr s1 \<Rightarrow>
         (case getsize env (fs w) b of
            Inl e \<Rightarrow> False
          | Inr s2 \<Rightarrow>
              s1 = s2 \<and>
              (case open_read env (fs w) a of
                 Inl e \<Rightarrow> False
               | Inr ca \<Rightarrow>
                  (case open_read env (fs w) b of
                     Inl e \<Rightarrow> False
                   | Inr cb \<Rightarrow>
                       sha256_hexdigest env ca \<noteq> [] \<and> sha256_hexdigest env cb \<noteq> [] \<and>
                       sha256_hexdigest env ca = sha256_hexdigest env cb))))"
proof -
  have fs2: "fs (snd (calculate_file_hash env w a 8192)) = fs w" by simp
  obtain h1 w1 where c1: "calculate_file_hash env w a 8192 = (h1, w1)" by fastforce
  obtain h2 w2 where c2: "calculate_file_hash env w1 b 8192 = (h2, w2)" by fastforce
  from c1 fs2 have fsw1: "fs w1 = fs w" by simp
  from c1 have h1: "h1 = (case open_read env (fs w) a of Inl e \<Rightarrow> None
                          | Inr c \<Rightarrow> Some (sha256_hexdigest env c))"
    using calculate_file_hash_value[of env w a 8192]
    by (auto simp: read_chunks_all split: sum.splits)
  from c2 fsw1 have h2: "h2 = (case open_read env (fs w) b of Inl e \<Rightarrow> None
                          | Inr c \<Rightarrow> Some (sha256_hexdigest env c))"
    using calculate_file_hash_value[of env w1 b 8192]
    by (auto simp: read_chunks_all split: sum.splits)
  show ?thesis
    by (auto simp: is_duplicate_def c1 c2 h1 h2 falsy_def split: sum.splits)
qed

text \<open>
  C3.  Two existing regular files that can be stat'ed and read, of equal size and equal
  (non-empty) digest, are duplicates.  Two paths whose sizes differ are not, and the world
  is returned as it was: no file was opened, nothing was printed.
\<close>

theorem is_duplicate_size_then_digest:
  "(lookup (fs w) a = Some (File ca ta) \<and> lookup (fs w) b = Some (File cb tb) \<and>
    \<not> stat_fails env a \<and> \<not> stat_fails env b \<and> \<not> open_fails env a \<and> \<not> open_fails env b \<and>
    length ca = length cb \<and> sha256_hexdigest env ca = sha256_hexdigest env cb \<and>
    sha256_hexdigest env ca \<noteq> []
      \<longrightarrow> fst (is_duplicate env w a b))
   \<and> (getsize env (fs w) a = Inr sa \<and> getsize env (fs w) b = Inr sb \<and> sa \<noteq> sb
      \<longrightarrow> is_duplicate env w a b = (False, w))"
proof (intro conjI impI)
  assume h: "lookup (fs w) a = Some (File ca ta) \<and> lookup (fs w) b = Some (File cb tb) \<and>
    \<not> stat_fails env a \<and> \<not> stat_fails env b \<and> \<not> open_fails env a \<and> \<not> open_fails env b \<and>
    length ca = length cb \<and> sha256_hexdigest env ca = sha256_hexdigest env cb \<and>
    sha256_hexdigest env ca \<noteq> []"
  then have "getsize env (fs w) a = Inr (length ca)" "getsize env (fs w) b = Inr (length cb)"
    "open_read env (fs w) a = Inr ca" "open_read env (fs w) b = Inr cb"
    by (simp_all add: getsize_def os_stat_def open_read_def)
  with h show "fst (is_duplicate env w a b)" by (auto simp: is_duplicate_value)
next
  assume "getsize env (fs w) a = Inr sa \<and> getsize env (fs w) b = Inr sb \<and> sa \<noteq> sb"
  then show "is_duplicate env w a b = (False, w)" by (simp add: is_duplicate_def)
qed

theorem is_duplicate_size_then_digest_witness:
  "fst (is_duplicate plain_env two_copies [''a''] [''b''])
   \<and> is_duplicate plain_env two_copies [''a''] [''c''] = (False, two_copies)"
proof -
  have "fst (is_duplicate plain_env two_copies [''a''] [''b''])"
    using is_duplicate_size_then_digest
      [where env = plain_env and w = two_copies and a = "[''a'']" and b = "[''b'']"
         and ca = "''xyz''" and cb = "''xyz''" and ta = 0 and tb = 5]
    by (simp add: plain_env_def two_copies_def lookup_def)
  moreover have "is_duplicate plain_env two_copies [''a''] [''c''] = (False, two_copies)"
    using is_duplicate_size_then_digest
      [where env = plain_env and w = two_copies and a = "[''a'']" and b = "[''c'']"
         and sa = 3 and sb = 6]
    by (simp add: plain_env_def two_copies_def lookup_def getsize_def os_stat_def)
  ultimately show ?thesis by simp
qed

text \<open>
  C7.  When opening or reading either file raises, \<^term>\<open>is_duplicate\<close> answers False,
  whatever the sizes and whatever the other file holds.
\<close>

theorem hash_failure_is_not_duplicate:
  "open_read env (fs w) a = Inl e \<or> open_read env (fs w) b = Inl e
     \<Longrightarrow> \<not> fst (is_duplicate env w a b)"
  by (auto simp: is_duplicate_value split: sum.splits)

theorem hash_failure_is_not_duplicate_witness:
  "\<not> fst (is_duplicate (plain_env\<lparr>open_fails := (\<lambda>p. p = [''b''])\<rparr>) two_copies [''a''] [''b''])"
  using hash_failure_is_not_duplicate
    [where env = "plain_env\<lparr>open_fails := (\<lambda>p. p = [''b''])\<rparr>" and w = two_copies
       and a = "[''a'']" and b = "[''b'']" and e = OSError]
  by (simp add: open_read_def)


section \<open>Properties of the year resolution\<close>

text \<open>
  What holds of the fallback: when \<^verbatim>\<open>createParser\<close> returns no parser, or extraction raises,
  or there is no metadata, or the metadata has no creation date, the year of a video is the
  year of the modification time of the file, provided the stat and the conversion of the
  time succeed.
\<close>

lemma video_year_falls_back_to_mtime:
  assumes "createParser env (fs w) p = Inr None
           \<or> (\<exists>parser. createParser env (fs w) p = Inr (Some parser) \<and>
                ((\<exists>e. extractMetadata env (fs w) parser = Inl e)
                 \<or> extractMetadata env (fs w) parser = Inr None
                 \<or> (\<exists>md. extractMetadata env (fs w) parser = Inr (Some md) \<and>
                          map_of md ''creation_date'' = None)))"
    and "getmtime env (fs w) p = Inr t"
    and "fromtimestamp env t = Inr dt"
  shows "get_video_year env w p = Inr (year dt)"
proof -
  from assms(2,3) have fb: "fallback_year env w p = Inr (year dt)"
    by (simp add: fallback_year_def)
  from assms(1) have "get_video_year env w p = fallback_year env w p"
    by (auto simp: get_video_year_def)
  with fb show ?thesis by simp
qed

text \<open>The example of the specification: a modification time of 2021-06-01 gives 2021.\<close>

lemma video_year_fallback_example:
  "get_video_year plain_env one_clip [''src'', ''clip.mp4''] = Inr 2021"
proof -
  have noparser: "createParser plain_env (fs one_clip) [''src'', ''clip.mp4''] = Inr None"
    by (simp add: plain_env_def)
  have mtime: "getmtime plain_env (fs one_clip) [''src'', ''clip.mp4''] = Inr 1622505600"
    by code_simp
  have june: "fromtimestamp plain_env 1622505600 = Inr \<lparr>year = 2021, month = 6, day = 1\<rparr>"
    by code_simp
  show ?thesis
    using video_year_falls_back_to_mtime [OF disjI1 [OF noparser] mtime june] by simp
qed

text \<open>
  An environment in which \<^verbatim>\<open>createParser\<close> does what the hachoir library does with a file
  it cannot read: it raises \<^verbatim>\<open>NullStreamError\<close> for an empty file and \<^verbatim>\<open>InputStreamError\<close>
  for a path it cannot open as a file; in any other file it finds no parser.  The world
  holds an empty video, modified on 2021-06-01, and a second video.
\<close>

definition hachoir_env :: env where
  "hachoir_env =
     plain_env\<lparr>createParser :=
       (\<lambda>f p. case lookup f p of
                 None \<Rightarrow> Inl InputStreamError
               | Some Dir \<Rightarrow> Inl InputStreamError
               | Some (File c t) \<Rightarrow> if c = [] then Inl NullStreamError else Inr None)\<rparr>"

definition empty_clip :: world where
  "empty_clip =
     \<lparr>fs = [([''src''], Dir), ([''src'', ''zero.mp4''], File [] 1622505600),
            ([''src'', ''b.mp4''], File ''data'' 1622505600)],
      out = [], trace = []\<rparr>"

text \<open>
  C6.  The claim fails where the parser cannot open the file by raising.  For the empty
  video no creation date can be extracted and the modification time is in 2021, yet
  \<^term>\<open>get_video_year\<close> gives no year: the exception of \<^verbatim>\<open>createParser\<close> leaves it, and
  leaves the run, which moves nothing, not even the second video.  The fallback itself,
  had it been reached, gives 2021.
\<close>

theorem unreadable_video_resolves_no_year:
  "get_video_year hachoir_env empty_clip [''src'', ''zero.mp4''] = Inl NullStreamError
   \<and> fallback_year hachoir_env empty_clip [''src'', ''zero.mp4''] = Inr 2021
   \<and> copy_media_sorted_by_year hachoir_env empty_clip [''src''] [''photo''] [''video''] [''dup'']
       = Some (Some NullStreamError, empty_clip\<lparr>out := [InitialCounts 2 0 0 0]\<rparr>)"
  by code_simp

section \<open>Properties of the classification\<close>

text \<open>
  What holds of the classification: it depends on the lower-cased name only, so it is
  insensitive to case; the examples of the specification; and a file that is ignored
  leaves the world and the counter as they are.
\<close>

lemma classify_case_insensitive: "lower a = lower b \<Longrightarrow> classify a = classify b"
  by (simp add: classify_def)

lemma classify_examples:
  "classify ''IMG.JPG'' = Photo \<and> classify ''img.jpg'' = Photo \<and> classify ''img.Jpg'' = Photo
   \<and> classify ''clip.MOV'' = Video \<and> classify ''notes.txt'' = Ignored \<and> classify ''README'' = Ignored"
  by code_simp

text \<open>A name written with the Kelvin sign: \<^verbatim>\<open>str.lower()\<close> makes it end in \<^verbatim>\<open>.mkv\<close>.\<close>

lemma classify_kelvin_sign:
  "classify (''clip.m'' @ [CHR 0xE2, CHR 0x84, CHR 0xAA] @ ''v'') = Video"
  by code_simp

lemma process_file_ignored:
  "classify file = Ignored \<Longrightarrow>
   process_file env photo video dup root file (w, count) = (None, w, count)"
  by (simp add: classify_def process_file_def Let_def split: if_splits)

text \<open>
  C2.  The test is a suffix test on the lower-cased name, and the last entry of
  \<^term>\<open>VIDEO_EXTENSIONS\<close> has no dot.  The name \<^verbatim>\<open>stmts\<close> has no extension, yet it is
  classified as a video: its year is resolved, the year folder is made and the file is moved.
\<close>

theorem name_without_extension_is_video:
  "splitext ''stmts'' = (''stmts'', [])
   \<and> classify ''stmts'' = Video
   \<and> process_file plain_env [''photo''] [''video''] [''dup''] [''src''] ''stmts'' (one_stmts, 0)
       = (None,
          \<lparr>fs = [([''src''], Dir), ([''video''], Dir), ([''video'', ''2021''], Dir),
                 ([''video'', ''2021'', ''stmts''], File ''hello'' 1622505600)],
           out = [Moved 1 [''src'', ''stmts''] [''video'', ''2021'', ''stmts'']],
           trace = [SysMakedirs [''video'', ''2021''],
                    SysMove [''src'', ''stmts''] [''video'', ''2021'', ''stmts'']]\<rparr>,
          1)"
  by code_simp

section \<open>Facts about the file system\<close>

lemma lookup_root [simp]: "lookup f [] = Some Dir"
  by (simp add: lookup_def)

lemma map_of_remove: "map_of (remove p f) q = (if q = p then None else map_of f q)"
  by (induction f) (auto simp: remove_def)

lemma lookup_remove: "lookup (remove p f) q = (if q = [] then Some Dir else if q = p then None else lookup f q)"
  by (simp add: lookup_def map_of_remove)

lemma lookup_put: "lookup (put p n f) q = (if q = [] then Some Dir else if q = p then Some n else lookup f q)"
  by (auto simp: lookup_def put_def map_of_remove map_add_def split: option.splits)

lemma lookup_snoc: "lookup (f @ [(p, n)]) q = (case lookup f q of Some m \<Rightarrow> Some m | None \<Rightarrow> if q = p then Some n else None)"
  by (auto simp: lookup_def map_add_def split: option.splits)

lemma exists_iff: "\<not> stat_fails env p \<Longrightarrow> exists env f p = (lookup f p \<noteq> None)"
  by (auto simp: exists_def os_stat_def split: option.splits node.splits)

lemma isdir_iff: "\<not> stat_fails env p \<Longrightarrow> isdir env f p = (lookup f p = Some Dir)"
  by (auto simp: isdir_def os_stat_def split: option.splits node.splits)

lemma is_duplicate_fs [simp]: "fs (snd (is_duplicate env w a b)) = fs w"
proof -
  obtain h1 w1 where c1: "calculate_file_hash env w a 8192 = (h1, w1)" by fastforce
  obtain h2 w2 where c2: "calculate_file_hash env w1 b 8192 = (h2, w2)" by fastforce
  from c1 have "fs w1 = fs w" using calculate_file_hash_fs[of env w a 8192] by simp
  moreover from c2 have "fs w2 = fs w1" using calculate_file_hash_fs[of env w1 b 8192] by simp
  ultimately show ?thesis
    by (auto simp: is_duplicate_def c1 c2 emit_def split: sum.splits)
qed

text \<open>The loop ends on a free path; it is the start, or a numbered name all of whose predecessors are taken.\<close>
lemma next_free_spec:
  "next_free env f folder name ext cur c = (t, c') \<Longrightarrow>
     \<not> exists env f t \<and> c \<le> c' \<and>
     (if c' = c then t = cur
      else exists env f cur \<and> t = join folder (numbered name (c' - 1) ext) \<and>
           (\<forall>k. c \<le> k \<and> k < c' - 1 \<longrightarrow> exists env f (join folder (numbered name k ext))))"
proof (induction env f folder name ext cur c arbitrary: t c' rule: next_free.induct)
  case (1 env f folder name ext cur count)
  show ?case
  proof (cases "exists env f cur")
    case False
    with "1.prems" show ?thesis by (simp add: next_free.simps[of env f folder name ext cur count])
  next
    case True
    with "1.prems" have rec: "next_free env f folder name ext (join folder (numbered name count ext)) (count + 1) = (t, c')"
      by (simp add: next_free.simps[of env f folder name ext cur count])
    from "1.IH"[OF True rec] have free: "\<not> exists env f t" and le: "count + 1 \<le> c'"
      and rest: "if c' = count + 1 then t = join folder (numbered name count ext)
                 else exists env f (join folder (numbered name count ext)) \<and> t = join folder (numbered name (c' - 1) ext) \<and>
           (\<forall>k. count + 1 \<le> k \<and> k < c' - 1 \<longrightarrow> exists env f (join folder (numbered name k ext)))"
      by simp_all
    show ?thesis
    proof (cases "c' = count + 1")
      case True
      with rest free le \<open>exists env f cur\<close> show ?thesis by auto
    next
      case False
      with rest have a: "exists env f (join folder (numbered name count ext))"
        and b: "t = join folder (numbered name (c' - 1) ext)"
        and c: "\<forall>k. count + 1 \<le> k \<and> k < c' - 1 \<longrightarrow> exists env f (join folder (numbered name k ext))"
        by simp_all
      have "\<forall>k. count \<le> k \<and> k < c' - 1 \<longrightarrow> exists env f (join folder (numbered name k ext))"
      proof (intro allI impI)
        fix k assume "count \<le> k \<and> k < c' - 1"
        then show "exists env f (join folder (numbered name k ext))"
          using a c by (cases "k = count") auto
      qed
      with free le b \<open>exists env f cur\<close> False show ?thesis by simp
    qed
  qed
qed

text \<open>The last step of \<^term>\<open>makedirs\<close>: make the directory, accept that it is there.\<close>

definition mkdir_exist_ok :: "env \<Rightarrow> filesystem \<Rightarrow> path \<Rightarrow> error option \<times> filesystem" where
  "mkdir_exist_ok env f1 name =
     (case mkdir env f1 name of
        Inr f2 \<Rightarrow> (None, f2)
      | Inl e \<Rightarrow> if isdir env f1 name then (None, f1) else (Some e, f1))"

lemma makedirs_eq:
  "makedirs env f name =
     (if name \<noteq> [] \<and> \<not> exists env f (dirname name)
      then (case makedirs env f (dirname name) of
              (Some e, f') \<Rightarrow> if e = FileExistsError then mkdir_exist_ok env f' name else (Some e, f')
            | (None, f') \<Rightarrow> mkdir_exist_ok env f' name)
      else mkdir_exist_ok env f name)"
  by (subst makedirs.simps) (auto simp: mkdir_exist_ok_def split: prod.splits option.splits sum.splits)

lemma mkdir_Inr: "mkdir env f p = Inr f' \<Longrightarrow> f' = f @ [(p, Dir)] \<and> lookup f p = None \<and> lookup f (dirname p) = Some Dir"
  by (auto simp: mkdir_def split: if_splits option.splits node.splits)

lemma mkdir_exist_ok_frame:
  "lookup f q = Some n \<Longrightarrow> lookup (snd (mkdir_exist_ok env f name)) q = Some n"
  by (auto simp: mkdir_exist_ok_def lookup_snoc split: sum.splits dest!: mkdir_Inr)

lemma mkdir_exist_ok_new:
  "lookup (snd (mkdir_exist_ok env f name)) q = Some n \<Longrightarrow> lookup f q = None \<Longrightarrow> n = Dir \<and> q = name"
  by (auto simp: mkdir_exist_ok_def lookup_snoc split: sum.splits if_splits dest!: mkdir_Inr)

lemma makedirs_leaf:
  "\<not> (name \<noteq> [] \<and> \<not> exists env f (dirname name)) \<Longrightarrow>
   makedirs env f name = mkdir_exist_ok env f name"
  by (subst makedirs_eq) auto

lemma makedirs_rec:
  "name \<noteq> [] \<and> \<not> exists env f (dirname name) \<Longrightarrow> makedirs env f (dirname name) = (e, f') \<Longrightarrow>
   makedirs env f name =
     (if e = None \<or> e = Some FileExistsError then mkdir_exist_ok env f' name else (e, f'))"
  by (subst makedirs_eq) (auto split: option.splits)

lemma take_butlast_le: "k \<le> length xs - 1 \<Longrightarrow> take k (butlast xs) = take k xs"
  by (simp add: butlast_conv_take min_def)

lemma makedirs_frame:
  "lookup f q = Some n \<Longrightarrow> lookup (snd (makedirs env f name)) q = Some n"
proof (induction env f name rule: makedirs.induct)
  case (1 env f name)
  show ?case
  proof (cases "name \<noteq> [] \<and> \<not> exists env f (dirname name)")
    case False
    then show ?thesis using "1.prems" by (simp add: makedirs_leaf mkdir_exist_ok_frame)
  next
    case True
    obtain e f' where p: "makedirs env f (dirname name) = (e, f')" by fastforce
    with "1.IH"[OF True] "1.prems" have "lookup f' q = Some n" by simp
    then show ?thesis by (simp add: makedirs_rec[OF True p] mkdir_exist_ok_frame)
  qed
qed

lemma makedirs_new:
  "lookup (snd (makedirs env f name)) q = Some n \<Longrightarrow> lookup f q = None
     \<Longrightarrow> n = Dir \<and> (\<exists>k \<le> length name. q = take k name)"
proof (induction env f name rule: makedirs.induct)
  case (1 env f name)
  show ?case
  proof (cases "name \<noteq> [] \<and> \<not> exists env f (dirname name)")
    case False
    with "1.prems" have "lookup (snd (mkdir_exist_ok env f name)) q = Some n"
      by (simp add: makedirs_leaf)
    from mkdir_exist_ok_new[OF this "1.prems"(2)] have "n = Dir \<and> q = name" .
    then show ?thesis by (auto intro: exI[of _ "length name"])
  next
    case True
    obtain e f' where p: "makedirs env f (dirname name) = (e, f')" by fastforce
    show ?thesis
    proof (cases "lookup f' q")
      case None
      from "1.prems"(1) None have "lookup (snd (mkdir_exist_ok env f' name)) q = Some n"
        by (simp add: makedirs_rec[OF True p] split: if_splits)
      from mkdir_exist_ok_new[OF this None] have "n = Dir \<and> q = name" .
      then show ?thesis by (auto intro: exI[of _ "length name"])
    next
      case (Some m)
      then have "lookup (snd (makedirs env f name)) q = Some m"
        by (simp add: makedirs_rec[OF True p] mkdir_exist_ok_frame)
      with "1.prems"(1) have mn: "m = n" by simp
      from "1.IH"[OF True] p Some "1.prems"(2) mn
      have "n = Dir \<and> (\<exists>k \<le> length (dirname name). q = take k (dirname name))" by simp
      then obtain k where "n = Dir" "k \<le> length (dirname name)" "q = take k (dirname name)" by blast
      then have "k \<le> length name \<and> q = take k name"
        by (auto simp: dirname_def take_butlast_le)
      with \<open>n = Dir\<close> show ?thesis by blast
    qed
  qed
qed

text \<open>Nothing in the way and no fault: the directory is there afterwards.\<close>
lemma makedirs_ok:
  "\<forall>p. \<not> stat_fails env p \<Longrightarrow> \<forall>p. \<not> mkdir_fails env p \<Longrightarrow>
   \<forall>k \<le> length name. lookup f (take k name) = None \<or> lookup f (take k name) = Some Dir \<Longrightarrow>
   fst (makedirs env f name) = None \<and> lookup (snd (makedirs env f name)) name = Some Dir"
proof (induction env f name rule: makedirs.induct)
  case (1 env f name)
  note assms = "1.prems"(1,2)
  note pre = "1.prems"(3)
  have ex: "\<And>g p. exists env g p = (lookup g p \<noteq> None)" using assms(1) by (simp add: exists_iff)
  have isd: "\<And>g p. isdir env g p = (lookup g p = Some Dir)" using assms(1) by (simp add: isdir_iff)
  have last_step: "fst (mkdir_exist_ok env g name) = None \<and> lookup (snd (mkdir_exist_ok env g name)) name = Some Dir"
    if "lookup g name = None \<or> lookup g name = Some Dir" and "lookup g (dirname name) = Some Dir" for g
    using that assms(2)
    by (auto simp: mkdir_exist_ok_def mkdir_def isd lookup_snoc split: sum.splits option.splits node.splits if_splits)
  from pre have self: "lookup f name = None \<or> lookup f name = Some Dir"
    by (metis order_refl take_all)
  show ?case
  proof (cases "name \<noteq> [] \<and> \<not> exists env f (dirname name)")
    case False
    then have "name = [] \<or> lookup f (dirname name) \<noteq> None" by (simp add: ex)
    moreover have "lookup f (dirname name) = None \<or> lookup f (dirname name) = Some Dir"
      using pre[rule_format, of "length name - 1"] by (simp add: dirname_def butlast_conv_take)
    ultimately have "lookup f (dirname name) = Some Dir" by (auto simp: dirname_def)
    with last_step[OF self] show ?thesis by (simp add: makedirs_leaf[OF False])
  next
    case True
    obtain e f' where p: "makedirs env f (dirname name) = (e, f')" by fastforce
    have "\<forall>k \<le> length (dirname name). lookup f (take k (dirname name)) = None \<or> lookup f (take k (dirname name)) = Some Dir"
    proof (intro allI impI)
      fix k assume "k \<le> length (dirname name)"
      then have "k \<le> length name" "take k (dirname name) = take k name"
        by (auto simp: dirname_def take_butlast_le)
      with pre show "lookup f (take k (dirname name)) = None \<or> lookup f (take k (dirname name)) = Some Dir"
        by simp
    qed
    from "1.IH"[OF True assms this] p have e: "e = None" and par: "lookup f' (dirname name) = Some Dir" by simp_all
    have "lookup f' name = None \<or> lookup f' name = Some Dir"
    proof (cases "lookup f' name")
      case None then show ?thesis by simp
    next
      case (Some m)
      show ?thesis
      proof (cases "lookup f name")
        case None
        with makedirs_new[of env f "dirname name" name m] p Some have "m = Dir" by simp
        with Some show ?thesis by simp
      next
        case (Some m')
        with self have "lookup f name = Some Dir" by simp
        from makedirs_frame[OF this, of env "dirname name"] p show ?thesis by simp
      qed
    qed
    from last_step[OF this par] e show ?thesis by (simp add: makedirs_rec[OF True p])
  qed
qed

section \<open>Properties of the relocation\<close>

text \<open>
  The names tried for a file of basename \<^term>\<open>base\<close> in a folder, in the order tried: the
  name itself, then \<^verbatim>\<open>name_1.ext\<close>, \<^verbatim>\<open>name_2.ext\<close>, ...
\<close>

definition candidate :: "path \<Rightarrow> string \<Rightarrow> nat \<Rightarrow> path" where
  "candidate folder base k =
     (if k = 0 then join folder base
      else join folder (numbered (fst (splitext base)) k (snd (splitext base))))"

lemma shutil_move_file_ok:
  assumes "\<not> move_fails env src dst" and "lookup f src = Some (File c t)"
    and "\<not> stat_fails env dst" and "lookup f dst = None" and "dst \<noteq> []"
    and "lookup f (dirname dst) = Some Dir"
  shows "shutil_move env f src dst = Inr (put dst (File c t) (remove src f))"
proof -
  from assms(2) have "src \<noteq> []" by (auto simp: lookup_def)
  moreover from assms(3,4) have "\<not> isdir env f dst" by (simp add: isdir_iff)
  ultimately show ?thesis using assms by (simp add: shutil_move_def)
qed

lemma makedirs_child:
  "lookup (snd (makedirs env f name)) (join name x) = lookup f (join name x)"
proof (cases "lookup f (join name x)")
  case (Some n)
  from makedirs_frame[OF this] Some show ?thesis by simp
next
  case None
  show ?thesis
  proof (cases "lookup (snd (makedirs env f name)) (join name x)")
    case (Some n)
    from makedirs_new[OF this None] obtain k where "k \<le> length name" "join name x = take k name" by blast
    then have "length (join name x) \<le> length name" by simp
    then show ?thesis by (simp add: join_def)
  qed (simp add: None)
qed

lemma next_free_index:
  assumes "next_free env f folder name ext cur 1 = (t, c')"
  shows "\<not> exists env f t \<and>
         ((t = cur \<and> c' = 1) \<or>
          (exists env f cur \<and> 1 \<le> c' - 1 \<and> t = join folder (numbered name (c' - 1) ext) \<and>
           (\<forall>j. 1 \<le> j \<and> j < c' - 1 \<longrightarrow> exists env f (join folder (numbered name j ext)))))"
  using next_free_spec[OF assms] by (auto split: if_splits)

lemma move_clear:
  assumes "\<forall>p. \<not> stat_fails env p" and "\<forall>p q. \<not> move_fails env p q"
    and "lookup (fs w) src = Some (File c t)" and "lookup (fs w) dest = None"
    and "lookup (fs w) (dirname dest) = Some Dir"
  shows "move_file_safe env w src dest dup count =
           (None, emit (Moved count src dest)
                    ((called (SysMove src dest) w)\<lparr>fs := put dest (File c t) (remove src (fs w))\<rparr>))"
proof -
  from assms(4) have ne: "dest \<noteq> []" by (auto simp: lookup_def)
  from assms(1,4) have nex: "\<not> exists env (fs w) dest" by (simp add: exists_iff)
  have "shutil_move env (fs w) src dest = Inr (put dest (File c t) (remove src (fs w)))"
    using assms ne by (intro shutil_move_file_ok) auto
  with nex show ?thesis
    by (simp add: move_file_safe_def move_file_safe_try_def Let_def)
qed

lemma move_conflict:
  assumes "\<forall>p. \<not> stat_fails env p" and "\<forall>p q. \<not> move_fails env p q"
    and "lookup (fs w) src = Some (File c t)" and "lookup (fs w) dest \<noteq> None"
    and "is_duplicate env w src dest = (False, w1)"
    and "lookup (fs w) (dirname dest) = Some Dir"
  shows "\<exists>k\<ge>1. lookup (fs w) (candidate (dirname dest) (basename dest) k) = None \<and>
           (\<forall>j. 1 \<le> j \<and> j < k \<longrightarrow> lookup (fs w) (candidate (dirname dest) (basename dest) j) \<noteq> None) \<and>
           move_file_safe env w src dest dup count =
             (None, emit (ConflictMoved src (candidate (dirname dest) (basename dest) k))
                ((called (SysMove src (candidate (dirname dest) (basename dest) k)) w1)
                 \<lparr>fs := put (candidate (dirname dest) (basename dest) k) (File c t) (remove src (fs w))\<rparr>))"
proof -
  obtain name ext where sp: "splitext (basename dest) = (name, ext)" by fastforce
  let ?D = "dirname dest"
  have cand: "\<And>k. 1 \<le> k \<Longrightarrow> candidate ?D (basename dest) k = join ?D (numbered name k ext)"
    by (auto simp: candidate_def sp)
  have ex: "\<And>g p. exists env g p = (lookup g p \<noteq> None)" using assms(1) by (simp add: exists_iff)
  have fs1: "fs w1 = fs w" using is_duplicate_fs[of env w src dest] assms(5) by simp
  obtain tgt c' where nf: "next_free env (fs w) ?D name ext dest 1 = (tgt, c')" by fastforce
  from next_free_index[OF nf] assms(4) have free: "lookup (fs w) tgt = None"
    and k1: "1 \<le> c' - 1" and tgt: "tgt = join ?D (numbered name (c' - 1) ext)"
    and below: "\<forall>j. 1 \<le> j \<and> j < c' - 1 \<longrightarrow> lookup (fs w) (join ?D (numbered name j ext)) \<noteq> None"
    by (auto simp: ex)
  let ?k = "c' - 1"
  from k1 tgt have tc: "tgt = candidate ?D (basename dest) ?k" by (simp add: cand)
  have mv: "shutil_move env (fs w) src tgt = Inr (put tgt (File c t) (remove src (fs w)))"
    using assms(1,2,3,6) free tgt by (intro shutil_move_file_ok) (auto simp: join_def dirname_def)
  have "move_file_safe_try env w src dest dup count =
          (None, emit (ConflictMoved src tgt) ((called (SysMove src tgt) w1)\<lparr>fs := put tgt (File c t) (remove src (fs w))\<rparr>))"
    unfolding move_file_safe_try_def using assms(4)
    by (simp add: ex assms(5) Let_def sp nf[simplified] fs1 mv)
  then have "move_file_safe env w src dest dup count =
          (None, emit (ConflictMoved src tgt) ((called (SysMove src tgt) w1)\<lparr>fs := put tgt (File c t) (remove src (fs w))\<rparr>))"
    by (simp add: move_file_safe_def)
  moreover have "\<forall>j. 1 \<le> j \<and> j < ?k \<longrightarrow> lookup (fs w) (candidate ?D (basename dest) j) \<noteq> None"
    using below by (simp add: cand)
  ultimately show ?thesis using k1 free tc by blast
qed

lemma move_duplicate:
  assumes "\<forall>p. \<not> stat_fails env p" and "\<forall>p q. \<not> move_fails env p q" and "\<forall>p. \<not> mkdir_fails env p"
    and "lookup (fs w) src = Some (File c t)" and "lookup (fs w) dest \<noteq> None"
    and "is_duplicate env w src dest = (True, w1)"
    and "\<forall>k \<le> length dup. lookup (fs w) (take k dup) = None \<or> lookup (fs w) (take k dup) = Some Dir"
  shows "\<exists>k. lookup (fs w) (candidate dup (basename src) k) = None \<and>
           (\<forall>j < k. lookup (fs w) (candidate dup (basename src) j) \<noteq> None) \<and>
           lookup (snd (makedirs env (fs w) dup)) dup = Some Dir \<and>
           move_file_safe env w src dest dup count =
             (None, emit (DuplicateMoved src (candidate dup (basename src) k))
                ((called (SysMove src (candidate dup (basename src) k)) (called (SysMakedirs dup) w1))
                 \<lparr>fs := put (candidate dup (basename src) k) (File c t)
                          (remove src (snd (makedirs env (fs w) dup)))\<rparr>))"
proof -
  obtain name ext where sp: "splitext (basename src) = (name, ext)" by fastforce
  have cand0: "candidate dup (basename src) 0 = join dup (basename src)" by (simp add: candidate_def)
  have cand: "\<And>k. 1 \<le> k \<Longrightarrow> candidate dup (basename src) k = join dup (numbered name k ext)"
    by (auto simp: candidate_def sp)
  have ex: "\<And>g p. exists env g p = (lookup g p \<noteq> None)" using assms(1) by (simp add: exists_iff)
  have fs1: "fs w1 = fs w" using is_duplicate_fs[of env w src dest] assms(6) by simp
  obtain e3 f3 where mk: "makedirs env (fs w) dup = (e3, f3)" by fastforce
  from makedirs_ok[OF assms(1,3,7)] mk have e3: "e3 = None" and dupdir: "lookup f3 dup = Some Dir"
    by simp_all
  have child: "\<And>x. lookup f3 (join dup x) = lookup (fs w) (join dup x)"
    using makedirs_child[of env "fs w" dup] mk by simp
  have src3: "lookup f3 src = Some (File c t)"
    using makedirs_frame[OF assms(4), of env dup] mk by simp
  obtain tgt c' where nf: "next_free env f3 dup name ext (join dup (basename src)) 1 = (tgt, c')"
    by fastforce
  define k where "k = c' - 1"
  from next_free_index[OF nf]
  have free3: "lookup f3 tgt = None"
    and shape: "(tgt = join dup (basename src) \<and> c' = 1) \<or>
          (lookup f3 (join dup (basename src)) \<noteq> None \<and> 1 \<le> k \<and> tgt = join dup (numbered name k ext) \<and>
           (\<forall>j. 1 \<le> j \<and> j < k \<longrightarrow> lookup f3 (join dup (numbered name j ext)) \<noteq> None))"
    by (auto simp: ex k_def)
  from shape have tc: "tgt = candidate dup (basename src) k"
    by (auto simp: k_def cand cand0)
  from shape have below: "\<forall>j < k. lookup (fs w) (candidate dup (basename src) j) \<noteq> None"
  proof (elim disjE conjE)
    assume "c' = 1" then show ?thesis by (simp add: k_def)
  next
    assume a: "lookup f3 (join dup (basename src)) \<noteq> None"
      and b: "\<forall>j. 1 \<le> j \<and> j < k \<longrightarrow> lookup f3 (join dup (numbered name j ext)) \<noteq> None"
    show ?thesis
    proof (intro allI impI)
      fix j assume "j < k"
      show "lookup (fs w) (candidate dup (basename src) j) \<noteq> None"
      proof (cases "j = 0")
        case True with a show ?thesis by (simp add: cand0 child)
      next
        case False
        with b \<open>j < k\<close> have "lookup f3 (join dup (numbered name j ext)) \<noteq> None" by simp
        with False show ?thesis by (simp add: cand child)
      qed
    qed
  qed
  from shape have tj: "\<exists>x. tgt = join dup x" by auto
  with free3 child have free: "lookup (fs w) tgt = None" by auto
  have mv: "shutil_move env f3 src tgt = Inr (put tgt (File c t) (remove src f3))"
    using assms(1,2) src3 free3 tj dupdir
    by (intro shutil_move_file_ok) (auto simp: join_def dirname_def)
  have "move_file_safe_try env w src dest dup count =
          (None, emit (DuplicateMoved src tgt)
             ((called (SysMove src tgt) (called (SysMakedirs dup) w1))\<lparr>fs := put tgt (File c t) (remove src f3)\<rparr>))"
    unfolding move_file_safe_try_def using assms(5)
    by (simp add: ex assms(6) Let_def sp nf[simplified] fs1 mv mk e3 called_def emit_def)
  then have "move_file_safe env w src dest dup count =
          (None, emit (DuplicateMoved src tgt)
             ((called (SysMove src tgt) (called (SysMakedirs dup) w1))\<lparr>fs := put tgt (File c t) (remove src f3)\<rparr>))"
    by (simp add: move_file_safe_def)
  with free tc below dupdir mk show ?thesis by auto
qed

lemma lookup_moved:
  assumes "lookup f src = Some (File c t)" and "lookup f tgt = None"
  shows "lookup (put tgt (File c t) (remove src f)) tgt = Some (File c t)"
    and "lookup (put tgt (File c t) (remove src f)) src = None"
    and "q \<noteq> src \<Longrightarrow> q \<noteq> tgt \<Longrightarrow> lookup (put tgt (File c t) (remove src f)) q = lookup f q"
proof -
  from assms have ne: "src \<noteq> []" "tgt \<noteq> []" "src \<noteq> tgt" by (auto simp: lookup_def)
  then show "lookup (put tgt (File c t) (remove src f)) tgt = Some (File c t)"
    and "lookup (put tgt (File c t) (remove src f)) src = None"
    and "q \<noteq> src \<Longrightarrow> q \<noteq> tgt \<Longrightarrow> lookup (put tgt (File c t) (remove src f)) q = lookup f q"
    by (auto simp: lookup_put lookup_remove)
qed

text \<open>
  C1.  In an environment without faults, for a source that is a regular file:
  when the destination path is free (and its folder exists) the file is moved there;
  when the destination is taken by a content duplicate (and no regular file stands where the
  duplicates folder or one of its parents has to be) the duplicates folder is a directory
  afterwards and the file is in it under the first free name among its own basename,
  \<^verbatim>\<open>name_1.ext\<close>, \<^verbatim>\<open>name_2.ext\<close>, ...;
  when the destination is taken by anything else the file is in the folder of the
  destination under the first free name among \<^verbatim>\<open>name_1.ext\<close>, \<^verbatim>\<open>name_2.ext\<close>, ...,
  built from the basename of the destination, which the caller makes equal to that of the
  source.  In each case the source path is free afterwards and the move is printed.
\<close>
theorem relocate_three_way:
  assumes "\<forall>p. \<not> stat_fails env p" and "\<forall>p q. \<not> move_fails env p q" and "\<forall>p. \<not> mkdir_fails env p"
    and "lookup (fs w) src = Some (File c t)"
    and "move_file_safe env w src dest dup count = (r, w')"
  shows
   "(lookup (fs w) dest = None \<and> lookup (fs w) (dirname dest) = Some Dir \<longrightarrow>
       lookup (fs w') dest = Some (File c t) \<and> lookup (fs w') src = None \<and>
       last (out w') = Moved count src dest)
    \<and> (lookup (fs w) dest \<noteq> None \<and> fst (is_duplicate env w src dest) \<and>
        (\<forall>k \<le> length dup. lookup (fs w) (take k dup) = None \<or> lookup (fs w) (take k dup) = Some Dir) \<longrightarrow>
       (\<exists>k. lookup (fs w) (candidate dup (basename src) k) = None \<and>
            (\<forall>j < k. lookup (fs w) (candidate dup (basename src) j) \<noteq> None) \<and>
            lookup (fs w') dup = Some Dir \<and>
            lookup (fs w') (candidate dup (basename src) k) = Some (File c t) \<and>
            lookup (fs w') src = None \<and>
            last (out w') = DuplicateMoved src (candidate dup (basename src) k)))
    \<and> (lookup (fs w) dest \<noteq> None \<and> \<not> fst (is_duplicate env w src dest) \<and>
        lookup (fs w) (dirname dest) = Some Dir \<longrightarrow>
       (\<exists>k \<ge> 1. lookup (fs w) (candidate (dirname dest) (basename dest) k) = None \<and>
            (\<forall>j. 1 \<le> j \<and> j < k \<longrightarrow> lookup (fs w) (candidate (dirname dest) (basename dest) j) \<noteq> None) \<and>
            lookup (fs w') (candidate (dirname dest) (basename dest) k) = Some (File c t) \<and>
            lookup (fs w') src = None \<and>
            last (out w') = ConflictMoved src (candidate (dirname dest) (basename dest) k)))"
proof -
  have A: "lookup (fs w') dest = Some (File c t) \<and> lookup (fs w') src = None \<and>
       last (out w') = Moved count src dest"
    if "lookup (fs w) dest = None \<and> lookup (fs w) (dirname dest) = Some Dir"
  proof -
  note that
  then have free: "lookup (fs w) dest = None" and par: "lookup (fs w) (dirname dest) = Some Dir" by simp_all
  from move_clear[OF assms(1,2,4) free par, of dup count] assms(5)
  have w': "w' = emit (Moved count src dest)
                    ((called (SysMove src dest) w)\<lparr>fs := put dest (File c t) (remove src (fs w))\<rparr>)"
    by simp
  show ?thesis
    using lookup_moved(1,2)[OF assms(4) free] by (simp add: w' emit_def called_def)
  qed
  have B: "\<exists>k. lookup (fs w) (candidate dup (basename src) k) = None \<and>
            (\<forall>j < k. lookup (fs w) (candidate dup (basename src) j) \<noteq> None) \<and>
            lookup (fs w') dup = Some Dir \<and>
            lookup (fs w') (candidate dup (basename src) k) = Some (File c t) \<and>
            lookup (fs w') src = None \<and>
            last (out w') = DuplicateMoved src (candidate dup (basename src) k)"
    if h: "lookup (fs w) dest \<noteq> None \<and> fst (is_duplicate env w src dest) \<and>
        (\<forall>k \<le> length dup. lookup (fs w) (take k dup) = None \<or> lookup (fs w) (take k dup) = Some Dir)"
  proof -
  obtain w1 where isd: "is_duplicate env w src dest = (True, w1)"
    using h by (cases "is_duplicate env w src dest") auto
  from h have occ: "lookup (fs w) dest \<noteq> None"
    and pre: "\<forall>k \<le> length dup. lookup (fs w) (take k dup) = None \<or> lookup (fs w) (take k dup) = Some Dir"
    by simp_all
  let ?f3 = "snd (makedirs env (fs w) dup)"
  from move_duplicate[OF assms(1,2,3,4) occ isd pre, of count] assms(5)
  obtain k where free: "lookup (fs w) (candidate dup (basename src) k) = None"
    and below: "\<forall>j < k. lookup (fs w) (candidate dup (basename src) j) \<noteq> None"
    and dupdir: "lookup ?f3 dup = Some Dir"
    and w': "w' = emit (DuplicateMoved src (candidate dup (basename src) k))
                ((called (SysMove src (candidate dup (basename src) k)) (called (SysMakedirs dup) w1))
                 \<lparr>fs := put (candidate dup (basename src) k) (File c t) (remove src ?f3)\<rparr>)"
    by auto
  let ?tgt = "candidate dup (basename src) k"
  have tj: "\<exists>x. ?tgt = join dup x" by (auto simp: candidate_def)
  then have free3: "lookup ?f3 ?tgt = None" using free makedirs_child[of env "fs w" dup] by auto
  have src3: "lookup ?f3 src = Some (File c t)" using makedirs_frame[OF assms(4)] by simp
  have "dup \<noteq> src" using dupdir src3 by auto
  moreover have "dup \<noteq> ?tgt" using tj by (auto simp: join_def)
  ultimately have "lookup (put ?tgt (File c t) (remove src ?f3)) dup = Some Dir"
    using lookup_moved(3)[OF src3 free3, of dup] dupdir by simp
  with lookup_moved(1,2)[OF src3 free3] free below
  show ?thesis
    by (intro exI[of _ k]) (simp add: w' emit_def called_def)
  qed
  have C: "\<exists>k \<ge> 1. lookup (fs w) (candidate (dirname dest) (basename dest) k) = None \<and>
            (\<forall>j. 1 \<le> j \<and> j < k \<longrightarrow> lookup (fs w) (candidate (dirname dest) (basename dest) j) \<noteq> None) \<and>
            lookup (fs w') (candidate (dirname dest) (basename dest) k) = Some (File c t) \<and>
            lookup (fs w') src = None \<and>
            last (out w') = ConflictMoved src (candidate (dirname dest) (basename dest) k)"
    if h: "lookup (fs w) dest \<noteq> None \<and> \<not> fst (is_duplicate env w src dest) \<and>
        lookup (fs w) (dirname dest) = Some Dir"
  proof -
  obtain w1 where isd: "is_duplicate env w src dest = (False, w1)"
    using h by (cases "is_duplicate env w src dest") auto
  from h have occ: "lookup (fs w) dest \<noteq> None" and par: "lookup (fs w) (dirname dest) = Some Dir"
    by simp_all
  from move_conflict[OF assms(1,2,4) occ isd par, of dup count] assms(5)
  obtain k where k1: "1 \<le> k"
    and free: "lookup (fs w) (candidate (dirname dest) (basename dest) k) = None"
    and below: "\<forall>j. 1 \<le> j \<and> j < k \<longrightarrow> lookup (fs w) (candidate (dirname dest) (basename dest) j) \<noteq> None"
    and w': "w' = emit (ConflictMoved src (candidate (dirname dest) (basename dest) k))
                ((called (SysMove src (candidate (dirname dest) (basename dest) k)) w1)
                 \<lparr>fs := put (candidate (dirname dest) (basename dest) k) (File c t) (remove src (fs w))\<rparr>)"
    by auto
  from lookup_moved(1,2)[OF assms(4) free] k1 free below
  show ?thesis
    by (intro exI[of _ k]) (simp add: w' emit_def called_def)
  qed
  from A B C show ?thesis by blast
qed

text \<open>
  A world with a photo folder and a duplicates folder that both hold an \<^verbatim>\<open>a.jpg\<close> already, and
  three sources: a new name, a copy of the photo, and another photo of the same name.
\<close>

definition album :: world where
  "album =
     \<lparr>fs = [([''photo''], Dir), ([''photo'', ''2021''], Dir),
            ([''photo'', ''2021'', ''a.jpg''], File ''one'' 7),
            ([''dup''], Dir), ([''dup'', ''Photo''], Dir), ([''dup'', ''Photo'', ''2021''], Dir),
            ([''dup'', ''Photo'', ''2021'', ''a.jpg''], File ''one'' 3),
            ([''src''], Dir), ([''src'', ''a.jpg''], File ''one'' 0),
            ([''src'', ''x''], Dir), ([''src'', ''x'', ''a.jpg''], File ''two'' 0),
            ([''src'', ''b.jpg''], File ''bee'' 0)],
      out = [], trace = []\<rparr>"

lemma plain_env_no_faults:
  "\<forall>p. \<not> stat_fails plain_env p" "\<forall>p q. \<not> move_fails plain_env p q"
  "\<forall>p. \<not> mkdir_fails plain_env p" "\<forall>p. \<not> open_fails plain_env p"
  by (simp_all add: plain_env_def)

theorem relocate_three_way_witness:
  "lookup (fs (snd (move_file_safe plain_env album [''src'', ''b.jpg'']
                     [''photo'', ''2021'', ''b.jpg''] [''dup'', ''Photo'', ''2021''] 1)))
          [''photo'', ''2021'', ''b.jpg''] = Some (File ''bee'' 0)
   \<and> lookup (fs (snd (move_file_safe plain_env album [''src'', ''a.jpg'']
                     [''photo'', ''2021'', ''a.jpg''] [''dup'', ''Photo'', ''2021''] 1)))
          [''dup'', ''Photo'', ''2021'', ''a_1.jpg''] = Some (File ''one'' 0)
   \<and> lookup (fs (snd (move_file_safe plain_env album [''src'', ''x'', ''a.jpg'']
                     [''photo'', ''2021'', ''a.jpg''] [''dup'', ''Photo'', ''2021''] 1)))
          [''photo'', ''2021'', ''a_1.jpg''] = Some (File ''two'' 0)"
proof -
  let ?dup = "[''dup'', ''Photo'', ''2021'']"
  let ?dest = "[''photo'', ''2021'', ''a.jpg'']"
  note nf = plain_env_no_faults(1,2,3)
  have pre: "\<forall>k \<le> length ?dup. lookup (fs album) (take k ?dup) = None \<or> lookup (fs album) (take k ?dup) = Some Dir"
  proof (intro allI impI)
    fix k :: nat assume "k \<le> length ?dup"
    then have "k = 0 \<or> k = 1 \<or> k = 2 \<or> k = 3" by auto
    then show "lookup (fs album) (take k ?dup) = None \<or> lookup (fs album) (take k ?dup) = Some Dir"
      by (auto simp: album_def lookup_def)
  qed
  have clear: "lookup (fs (snd (move_file_safe plain_env album [''src'', ''b.jpg'']
                     [''photo'', ''2021'', ''b.jpg''] ?dup 1))) [''photo'', ''2021'', ''b.jpg''] = Some (File ''bee'' 0)"
  proof -
    have s: "lookup (fs album) [''src'', ''b.jpg''] = Some (File ''bee'' 0)" by code_simp
    have h: "lookup (fs album) [''photo'', ''2021'', ''b.jpg''] = None \<and>
             lookup (fs album) (dirname [''photo'', ''2021'', ''b.jpg'']) = Some Dir" by code_simp
    from relocate_three_way[OF nf s surjective_pairing, THEN conjunct1] h show ?thesis by blast
  qed
  have dupl: "lookup (fs (snd (move_file_safe plain_env album [''src'', ''a.jpg''] ?dest ?dup 1)))
                [''dup'', ''Photo'', ''2021'', ''a_1.jpg''] = Some (File ''one'' 0)"
  proof -
    have s: "lookup (fs album) [''src'', ''a.jpg''] = Some (File ''one'' 0)" by code_simp
    have h: "lookup (fs album) ?dest \<noteq> None \<and> fst (is_duplicate plain_env album [''src'', ''a.jpg''] ?dest)"
      by code_simp
    have c0: "lookup (fs album) (candidate ?dup (basename [''src'', ''a.jpg'']) 0) \<noteq> None" by code_simp
    have c1: "lookup (fs album) (candidate ?dup (basename [''src'', ''a.jpg'']) 1) = None" by code_simp
    have n1: "candidate ?dup (basename [''src'', ''a.jpg'']) 1 = [''dup'', ''Photo'', ''2021'', ''a_1.jpg'']"
      by code_simp
    from relocate_three_way[OF nf s surjective_pairing, THEN conjunct2, THEN conjunct1] h pre
    obtain k where free: "lookup (fs album) (candidate ?dup (basename [''src'', ''a.jpg'']) k) = None"
      and below: "\<forall>j < k. lookup (fs album) (candidate ?dup (basename [''src'', ''a.jpg'']) j) \<noteq> None"
      and at: "lookup (fs (snd (move_file_safe plain_env album [''src'', ''a.jpg''] ?dest ?dup 1)))
                 (candidate ?dup (basename [''src'', ''a.jpg'']) k) = Some (File ''one'' 0)"
      by blast
    from free c0 have "k \<noteq> 0" by (cases "k = 0") simp_all
    moreover from below c1 have "\<not> 1 < k" by blast
    ultimately have "k = 1" by simp
    with at n1 show ?thesis by simp
  qed
  have conf: "lookup (fs (snd (move_file_safe plain_env album [''src'', ''x'', ''a.jpg''] ?dest ?dup 1)))
                [''photo'', ''2021'', ''a_1.jpg''] = Some (File ''two'' 0)"
  proof -
    have s: "lookup (fs album) [''src'', ''x'', ''a.jpg''] = Some (File ''two'' 0)" by code_simp
    have h: "lookup (fs album) ?dest \<noteq> None \<and> \<not> fst (is_duplicate plain_env album [''src'', ''x'', ''a.jpg''] ?dest)
             \<and> lookup (fs album) (dirname ?dest) = Some Dir"
      by code_simp
    have c1: "lookup (fs album) (candidate (dirname ?dest) (basename ?dest) 1) = None" by code_simp
    have n1: "candidate (dirname ?dest) (basename ?dest) 1 = [''photo'', ''2021'', ''a_1.jpg'']"
      by code_simp
    from relocate_three_way[OF nf s surjective_pairing, THEN conjunct2, THEN conjunct2] h
    obtain k where k1: "1 \<le> k"
      and below: "\<forall>j. 1 \<le> j \<and> j < k \<longrightarrow> lookup (fs album) (candidate (dirname ?dest) (basename ?dest) j) \<noteq> None"
      and at: "lookup (fs (snd (move_file_safe plain_env album [''src'', ''x'', ''a.jpg''] ?dest ?dup 1)))
                 (candidate (dirname ?dest) (basename ?dest) k) = Some (File ''two'' 0)"
      by blast
    from below c1 have "\<not> 1 < k" by (meson order_refl)
    with k1 have "k = 1" by simp
    with at n1 show ?thesis by simp
  qed
  from clear dupl conf show ?thesis by simp
qed

text \<open>The calls of \<^verbatim>\<open>shutil.move\<close> among the calls made.\<close>

fun is_move :: "syscall \<Rightarrow> bool" where
  "is_move (SysMove s d) = True"
| "is_move (SysOpen p) = False"
| "is_move (SysMakedirs p) = False"

lemma calculate_file_hash_moves:
  "filter is_move (trace (snd (calculate_file_hash env w p n))) = filter is_move (trace w)"
  by (simp add: calculate_file_hash_def called_def emit_def Let_def split: sum.splits)

lemma is_duplicate_moves:
  "filter is_move (trace (snd (is_duplicate env w a b))) = filter is_move (trace w)"
proof -
  obtain h1 w1 where c1: "calculate_file_hash env w a 8192 = (h1, w1)" by fastforce
  obtain h2 w2 where c2: "calculate_file_hash env w1 b 8192 = (h2, w2)" by fastforce
  from c1 have "filter is_move (trace w1) = filter is_move (trace w)"
    using calculate_file_hash_moves[of env w a 8192] by simp
  moreover from c2 have "filter is_move (trace w2) = filter is_move (trace w1)"
    using calculate_file_hash_moves[of env w1 b 8192] by simp
  ultimately show ?thesis
    by (auto simp: is_duplicate_def c1 c2 emit_def split: sum.splits)
qed

lemma try_failure:
  assumes "lookup (fs w) src = Some (File c t)"
    and "move_file_safe_try env w src dest dup count = (Some e, w1)"
  shows "lookup (fs w1) src = Some (File c t) \<and>
         length (filter is_move (trace w1)) \<le> Suc (length (filter is_move (trace w)))"
proof -
  obtain d wd where isd: "is_duplicate env w src dest = (d, wd)" by fastforce
  then have fsd: "fs wd = fs w" and mvd: "filter is_move (trace wd) = filter is_move (trace w)"
    using is_duplicate_fs[of env w src dest] is_duplicate_moves[of env w src dest] by simp_all
  obtain e3 f3 where mk: "makedirs env (fs w) dup = (e3, f3)" by fastforce
  then have src3: "lookup f3 src = Some (File c t)"
    using makedirs_frame[OF assms(1), of env dup] by simp
  show ?thesis
    using assms isd fsd mvd mk src3
    by (auto simp: move_file_safe_try_def Let_def called_def emit_def
             split: if_splits prod.splits option.splits sum.splits)
qed

text \<open>
  C8.  No exception leaves \<^term>\<open>move_file_safe\<close>.  When one leaves the body of its
  \<^verbatim>\<open>try\<close>, as a failing \<^verbatim>\<open>shutil.move\<close> makes it, the function returns after printing the
  error; the source file is where it was, with its content; and the function has called
  \<^verbatim>\<open>shutil.move\<close> at most once, so the move was not tried again.
\<close>
theorem move_failure_is_contained:
  "fst (move_file_safe env w src dest dup count) = None
   \<and> (lookup (fs w) src = Some (File c t) \<and>
      move_file_safe_try env w src dest dup count = (Some e, w1)
      \<longrightarrow> move_file_safe env w src dest dup count = (None, emit (MoveError src e) w1)
          \<and> lookup (fs (snd (move_file_safe env w src dest dup count))) src = Some (File c t)
          \<and> length (filter is_move (trace (snd (move_file_safe env w src dest dup count))))
               \<le> Suc (length (filter is_move (trace w))))"
proof (intro conjI impI)
  show "fst (move_file_safe env w src dest dup count) = None"
    by (simp add: move_file_safe_def split: prod.splits option.splits)
next
  assume h: "lookup (fs w) src = Some (File c t) \<and>
      move_file_safe_try env w src dest dup count = (Some e, w1)"
  then have r: "move_file_safe env w src dest dup count = (None, emit (MoveError src e) w1)"
    by (simp add: move_file_safe_def)
  from h try_failure[of w src c t env dest dup count e w1]
  have "lookup (fs w1) src = Some (File c t)"
    and "length (filter is_move (trace w1)) \<le> Suc (length (filter is_move (trace w)))" by simp_all
  with r show "move_file_safe env w src dest dup count = (None, emit (MoveError src e) w1)"
    and "lookup (fs (snd (move_file_safe env w src dest dup count))) src = Some (File c t)"
    and "length (filter is_move (trace (snd (move_file_safe env w src dest dup count))))
               \<le> Suc (length (filter is_move (trace w)))"
    by (simp_all add: emit_def)
qed


text \<open>An environment in which every \<^verbatim>\<open>shutil.move\<close> fails.\<close>

definition no_moves_env :: env where
  "no_moves_env = plain_env\<lparr>move_fails := (\<lambda>s d. True)\<rparr>"

theorem move_failure_is_contained_witness:
  "move_file_safe no_moves_env album [''src'', ''b.jpg''] [''photo'', ''2021'', ''b.jpg'']
       [''dup'', ''Photo'', ''2021''] 1
     = (None, emit (MoveError [''src'', ''b.jpg''] OSError)
                (called (SysMove [''src'', ''b.jpg''] [''photo'', ''2021'', ''b.jpg'']) album))
   \<and> lookup (fs (snd (move_file_safe no_moves_env album [''src'', ''b.jpg'']
                       [''photo'', ''2021'', ''b.jpg''] [''dup'', ''Photo'', ''2021''] 1)))
        [''src'', ''b.jpg''] = Some (File ''bee'' 0)"
proof -
  have h: "lookup (fs album) [''src'', ''b.jpg''] = Some (File ''bee'' 0) \<and>
           move_file_safe_try no_moves_env album [''src'', ''b.jpg''] [''photo'', ''2021'', ''b.jpg'']
              [''dup'', ''Photo'', ''2021''] 1
            = (Some OSError, called (SysMove [''src'', ''b.jpg''] [''photo'', ''2021'', ''b.jpg'']) album)"
    by code_simp
  from move_failure_is_contained[THEN conjunct2, rule_format, OF h] show ?thesis by blast
qed


section \<open>Properties of the run\<close>

text \<open>
  C9.  When the source folder is not a directory the run returns, without an exception,
  after printing the initial counts and that the source folder does not exist.  The file
  system is as it was and no call that could change it has been made: no file is moved, no
  directory is created.
\<close>
theorem missing_source_aborts:
  assumes "\<not> isdir env (fs w) source"
  shows "\<exists>w'. copy_media_sorted_by_year env w source photo video dup = Some (None, w')
           \<and> fs w' = fs w \<and> trace w' = trace w
           \<and> out w' = out w @ [InitialCounts (count_files_in_directory (fs w) source)
                                   (count_files_in_directory (fs w) photo)
                                   (count_files_in_directory (fs w) video)
                                   (count_files_in_directory (fs w) dup),
                                 SourceMissing source]"
  using assms by (simp add: copy_media_sorted_by_year_def Let_def emit_def)

theorem missing_source_aborts_witness:
  "fst (the (copy_media_sorted_by_year plain_env album [''nowhere''] [''photo''] [''video''] [''dup''])) = None
   \<and> fs (snd (the (copy_media_sorted_by_year plain_env album [''nowhere''] [''photo''] [''video''] [''dup'']))) = fs album"
proof -
  have h: "\<not> isdir plain_env (fs album) [''nowhere'']" by code_simp
  from missing_source_aborts[OF h, of "[''photo'']" "[''video'']" "[''dup'']"] show ?thesis by auto
qed


text \<open>
  An environment in which the stat of \<^verbatim>\<open>src/a.jpg\<close> fails (a dangling symbolic link, a
  file removed since the listing), and a source folder with that file and a second one.
\<close>

definition unstatable_first :: env where
  "unstatable_first = plain_env\<lparr>stat_fails := (\<lambda>p. p = [''src'', ''a.jpg''])\<rparr>"

definition two_photos :: world where
  "two_photos =
     \<lparr>fs = [([''src''], Dir), ([''src'', ''a.jpg''], File ''one'' 1622505600),
            ([''src'', ''b.jpg''], File ''two'' 1622505600)],
      out = [], trace = []\<rparr>"

text \<open>
  C4.  The modification-time fallback is called outside every \<^verbatim>\<open>try\<close>, and so is the
  year resolution in the loop of the run.  When the stat of \<^verbatim>\<open>src/a.jpg\<close> fails, the
  exception leaves the run: nothing is printed about the file, and \<^verbatim>\<open>src/b.jpg\<close>, which the
  same run moves to \<^verbatim>\<open>photo/2021\<close> when the stat works, is never processed.
\<close>

theorem stat_failure_aborts_run:
  "copy_media_sorted_by_year unstatable_first two_photos [''src''] [''photo''] [''video''] [''dup'']
     = Some (Some OSError, two_photos\<lparr>out := [InitialCounts 2 0 0 0]\<rparr>)
   \<and> fst (the (copy_media_sorted_by_year plain_env two_photos [''src''] [''photo''] [''video''] [''dup''])) = None
   \<and> lookup (fs (snd (the (copy_media_sorted_by_year plain_env two_photos
                               [''src''] [''photo''] [''video''] [''dup'']))))
        [''photo'', ''2021'', ''b.jpg''] = Some (File ''two'' 1622505600)"
  by code_simp

section \<open>Several files of one name\<close>

text \<open>
  Content duplicates in the sense of the glossary: two regular files of equal size and equal
  digest.  The arguments are what two paths hold.
\<close>

definition same_content :: "env \<Rightarrow> node option \<Rightarrow> node option \<Rightarrow> bool" where
  "same_content env a b =
     (case a of
        Some (File c1 t1) \<Rightarrow>
          (case b of
             Some (File c2 t2) \<Rightarrow>
               length c1 = length c2 \<and> sha256_hexdigest env c1 = sha256_hexdigest env c2
           | Some Dir \<Rightarrow> False
           | None \<Rightarrow> False)
      | Some Dir \<Rightarrow> False
      | None \<Rightarrow> False)"

text \<open>No two of the given paths hold content duplicates.\<close>

fun all_differ :: "env \<Rightarrow> filesystem \<Rightarrow> path list \<Rightarrow> bool" where
  "all_differ env f [] = True"
| "all_differ env f (p # ps) =
     (list_all (\<lambda>q. \<not> same_content env (lookup f p) (lookup f q)) ps \<and> all_differ env f ps)"

text \<open>
  Several sources relocated to one destination path, one call of \<^term>\<open>move_file_safe\<close>
  after the other, as the run does for files of one name and one year.
\<close>

fun relocate_all :: "env \<Rightarrow> world \<Rightarrow> path list \<Rightarrow> path \<Rightarrow> path \<Rightarrow> nat \<Rightarrow> world" where
  "relocate_all env w [] dest dup count = w"
| "relocate_all env w (src # srcs) dest dup count =
     relocate_all env (snd (move_file_safe env w src dest dup (count + 1))) srcs dest dup (count + 1)"

lemma same_content_sym: "same_content env a b = same_content env b a"
  by (auto simp: same_content_def split: option.splits node.splits)

lemma open_read_Inr: "open_read env f p = Inr c \<Longrightarrow> \<exists>t. lookup f p = Some (File c t)"
  by (auto simp: open_read_def split: if_splits option.splits node.splits)

lemma getsize_File: "getsize env f p = Inr s \<Longrightarrow> lookup f p = Some (File c t) \<Longrightarrow> s = length c"
  by (auto simp: getsize_def os_stat_def split: if_splits)

lemma is_duplicate_same_content:
  assumes "fst (is_duplicate env w a b)"
  shows "same_content env (lookup (fs w) a) (lookup (fs w) b)"
proof -
  from assms obtain s1 s2 ca cb where g: "getsize env (fs w) a = Inr s1" "getsize env (fs w) b = Inr s2"
    "s1 = s2" and o: "open_read env (fs w) a = Inr ca" "open_read env (fs w) b = Inr cb"
    and h: "sha256_hexdigest env ca = sha256_hexdigest env cb"
    by (auto simp: is_duplicate_value split: sum.splits)
  from o obtain ta tb where l: "lookup (fs w) a = Some (File ca ta)" "lookup (fs w) b = Some (File cb tb)"
    by (auto dest!: open_read_Inr)
  with g have "s1 = length ca" "s2 = length cb" by (auto dest: getsize_File)
  with g(3) l h show ?thesis by (simp add: same_content_def)
qed

lemma dirname_join [simp]: "dirname (join d x) = d"
  by (simp add: dirname_def join_def)

lemma basename_join [simp]: "basename (join d x) = x"
  by (simp add: basename_def join_def)

lemma dirname_candidate [simp]: "dirname (candidate d b k) = d"
  by (simp add: candidate_def)

lemma place_step:
  assumes "\<forall>p. \<not> stat_fails env p" and "\<forall>p q. \<not> move_fails env p q"
    and "lookup (fs w) s = Some (File c t)"
    and "lookup (fs w) (dirname dest) = Some Dir"
    and "\<not> same_content env (lookup (fs w) dest) (lookup (fs w) s)"
  shows "\<exists>tgt. lookup (fs w) tgt = None \<and> dirname tgt = dirname dest \<and>
           fs (snd (move_file_safe env w s dest dup count)) = put tgt (File c t) (remove s (fs w)) \<and>
           (if lookup (fs w) dest = None then tgt = dest
            else \<exists>k\<ge>1. tgt = candidate (dirname dest) (basename dest) k \<and>
                   (\<forall>j. 1 \<le> j \<and> j < k \<longrightarrow>
                        lookup (fs w) (candidate (dirname dest) (basename dest) j) \<noteq> None))"
proof (cases "lookup (fs w) dest")
  case None
  from move_clear[OF assms(1,2,3) None assms(4), of dup count] None show ?thesis
    by (intro exI[of _ dest]) (simp add: emit_def called_def)
next
  case (Some occ)
  obtain d w1 where isd: "is_duplicate env w s dest = (d, w1)" by fastforce
  have "\<not> d"
  proof
    assume d
    with isd have "fst (is_duplicate env w s dest)" by simp
    from is_duplicate_same_content[OF this] assms(5) show False by (simp add: same_content_sym)
  qed
  with isd have isd': "is_duplicate env w s dest = (False, w1)" by simp
  from Some have occ: "lookup (fs w) dest \<noteq> None" by simp
  from move_conflict[OF assms(1,2,3) occ isd' assms(4), of dup count]
  obtain k where "1 \<le> k" "lookup (fs w) (candidate (dirname dest) (basename dest) k) = None"
    "\<forall>j. 1 \<le> j \<and> j < k \<longrightarrow> lookup (fs w) (candidate (dirname dest) (basename dest) j) \<noteq> None"
    "fs (snd (move_file_safe env w s dest dup count)) =
       put (candidate (dirname dest) (basename dest) k) (File c t) (remove s (fs w))"
    by (auto simp: emit_def called_def)
  with Some show ?thesis
    by (intro exI[of _ "candidate (dirname dest) (basename dest) k"]) auto
qed

text \<open>
  What one relocation into the folder of \<^term>\<open>dest\<close> has achieved, between the world
  \<^term>\<open>w\<close> before the relocations and the world \<^term>\<open>w'\<close> after them: the target
  \<^term>\<open>t\<close> is in that folder, was free, holds what the source \<^term>\<open>s\<close> held, and is the
  destination path or a numbered name all of whose predecessors are taken.
\<close>

definition placed :: "path \<Rightarrow> world \<Rightarrow> world \<Rightarrow> path \<Rightarrow> path \<Rightarrow> bool" where
  "placed dest w w' s t =
     (dirname t = dirname dest \<and> lookup (fs w) t = None \<and>
      lookup (fs w') t = lookup (fs w) s \<and> lookup (fs w') s = None \<and>
      (t = dest \<or>
       (\<exists>k\<ge>1. t = candidate (dirname dest) (basename dest) k \<and> lookup (fs w') dest \<noteq> None \<and>
          (\<forall>j. 1 \<le> j \<and> j < k \<longrightarrow>
               lookup (fs w') (candidate (dirname dest) (basename dest) j) \<noteq> None))))"

lemma list_all2_rightD: "list_all2 P xs ys \<Longrightarrow> y \<in> set ys \<Longrightarrow> \<exists>x \<in> set xs. P x y"
  by (induction rule: list_all2_induct) auto

lemma all_differ_cong:
  "\<forall>p \<in> set ps. lookup f p = lookup g p \<Longrightarrow> all_differ env f ps = all_differ env g ps"
  by (induction ps) (auto simp: list_all_iff)

lemma relocate_all_placed:
  assumes nf: "\<forall>p. \<not> stat_fails env p" "\<forall>p q. \<not> move_fails env p q"
  shows "lookup (fs w) (dirname dest) = Some Dir \<Longrightarrow> distinct srcs \<Longrightarrow>
         \<forall>s \<in> set srcs. dirname s \<noteq> dirname dest \<and> (\<exists>c t. lookup (fs w) s = Some (File c t)) \<Longrightarrow>
         all_differ env (fs w) (dest # srcs) \<Longrightarrow>
         \<exists>targets. list_all2 (placed dest w (relocate_all env w srcs dest dup count)) srcs targets \<and>
            distinct targets \<and>
            (\<forall>q. q \<notin> set srcs \<and> q \<notin> set targets \<longrightarrow>
                 lookup (fs (relocate_all env w srcs dest dup count)) q = lookup (fs w) q)"
proof (induction srcs arbitrary: w count)
  case Nil
  show ?case by (intro exI[of _ "[]"]) simp
next
  case (Cons s rest)
  let ?D = "dirname dest" and ?b = "basename dest"
  define w1 where "w1 = snd (move_file_safe env w s dest dup (count + 1))"
  define w' where "w' = relocate_all env w1 rest dest dup (count + 1)"
  have final: "relocate_all env w (s # rest) dest dup count = w'" by (simp add: w1_def w'_def)
  note dir = Cons.prems(1)
  from Cons.prems(2) have s_notin: "s \<notin> set rest" and drest: "distinct rest" by simp_all
  from Cons.prems(3) obtain c t where sfile: "lookup (fs w) s = Some (File c t)"
    and sdir: "dirname s \<noteq> ?D" by auto
  from Cons.prems(3) have rest_dir: "\<forall>x \<in> set rest. dirname x \<noteq> ?D"
    and rest_file: "\<forall>x \<in> set rest. \<exists>c t. lookup (fs w) x = Some (File c t)" by auto
  from Cons.prems(4) have d_s: "\<not> same_content env (lookup (fs w) dest) (lookup (fs w) s)"
    and d_rest: "\<forall>x \<in> set rest. \<not> same_content env (lookup (fs w) dest) (lookup (fs w) x)"
    and s_rest: "\<forall>x \<in> set rest. \<not> same_content env (lookup (fs w) s) (lookup (fs w) x)"
    and rest_rest: "all_differ env (fs w) rest"
    by (simp_all add: list_all_iff)
  from place_step[OF nf sfile dir d_s, of dup "count + 1"]
  obtain tgt where free: "lookup (fs w) tgt = None" and tdir: "dirname tgt = ?D"
    and fs1: "fs w1 = put tgt (File c t) (remove s (fs w))"
    and form: "if lookup (fs w) dest = None then tgt = dest
               else \<exists>k\<ge>1. tgt = candidate ?D ?b k \<and>
                      (\<forall>j. 1 \<le> j \<and> j < k \<longrightarrow> lookup (fs w) (candidate ?D ?b j) \<noteq> None)"
    unfolding w1_def by blast
  have at_tgt: "lookup (fs w1) tgt = Some (File c t)" and at_s: "lookup (fs w1) s = None"
    and frame1: "\<And>q. q \<noteq> s \<Longrightarrow> q \<noteq> tgt \<Longrightarrow> lookup (fs w1) q = lookup (fs w) q"
    using lookup_moved[OF sfile free] by (simp_all add: fs1)
  have s_ne_dest: "dest \<noteq> s" using sdir by auto
  have rest_same: "\<forall>x \<in> set rest. lookup (fs w1) x = lookup (fs w) x"
    using frame1 s_notin rest_dir tdir by (metis)
  have dest1: "lookup (fs w1) dest = (if lookup (fs w) dest = None then Some (File c t) else lookup (fs w) dest)"
  proof (cases "lookup (fs w) dest = None")
    case True with form at_tgt show ?thesis by simp
  next
    case False
    with free have "dest \<noteq> tgt" by auto
    with frame1[OF s_ne_dest] False show ?thesis by simp
  qed
  have dir1: "lookup (fs w1) ?D = Some Dir"
  proof -
    have "?D \<noteq> s" using dir sfile by auto
    moreover have "?D \<noteq> tgt" using dir free by auto
    ultimately show ?thesis using frame1 dir by simp
  qed
  have files1: "\<forall>x \<in> set rest. dirname x \<noteq> ?D \<and> (\<exists>c t. lookup (fs w1) x = Some (File c t))"
    using rest_dir rest_file rest_same by simp
  have differ1: "all_differ env (fs w1) (dest # rest)"
  proof -
    have "all_differ env (fs w1) rest" using all_differ_cong[OF rest_same, of env] rest_rest by simp
    moreover have "\<forall>x \<in> set rest. \<not> same_content env (lookup (fs w1) dest) (lookup (fs w1) x)"
      using d_rest s_rest rest_same sfile by (auto simp: dest1)
    ultimately show ?thesis by (simp add: list_all_iff)
  qed
  from Cons.IH[OF dir1 drest files1 differ1, of "count + 1"]
  obtain targets where pl: "list_all2 (placed dest w1 w') rest targets"
    and dis: "distinct targets"
    and frame': "\<And>q. q \<notin> set rest \<Longrightarrow> q \<notin> set targets \<Longrightarrow> lookup (fs w') q = lookup (fs w1) q"
    unfolding w'_def by blast
  have tprops: "lookup (fs w1) x = None \<and> dirname x = ?D" if "x \<in> set targets" for x
    using list_all2_rightD[OF pl that] by (auto simp: placed_def)
  have taken_stays: "lookup (fs w') q = lookup (fs w1) q" if "lookup (fs w1) q \<noteq> None" "dirname q = ?D" for q
  proof -
    from that(2) rest_dir have "q \<notin> set rest" by auto
    moreover from that(1) tprops have "q \<notin> set targets" by auto
    ultimately show ?thesis by (rule frame')
  qed
  have tgt_notin: "tgt \<notin> set targets" using tprops at_tgt by auto
  have s_notin_t: "s \<notin> set targets" using tprops sdir by auto
  have first: "placed dest w w' s tgt"
  proof -
    have a: "lookup (fs w') tgt = lookup (fs w) s"
      using taken_stays[of tgt] at_tgt tdir sfile by simp
    have b: "lookup (fs w') s = None" using frame'[OF s_notin s_notin_t] at_s by simp
    have c: "tgt = dest \<or>
       (\<exists>k\<ge>1. tgt = candidate ?D ?b k \<and> lookup (fs w') dest \<noteq> None \<and>
          (\<forall>j. 1 \<le> j \<and> j < k \<longrightarrow> lookup (fs w') (candidate ?D ?b j) \<noteq> None))"
    proof (cases "lookup (fs w) dest = None")
      case True with form show ?thesis by simp
    next
      case False
      with form obtain k where k: "1 \<le> k" "tgt = candidate ?D ?b k"
        and low: "\<forall>j. 1 \<le> j \<and> j < k \<longrightarrow> lookup (fs w) (candidate ?D ?b j) \<noteq> None" by auto
      have "lookup (fs w') dest \<noteq> None"
        using taken_stays[of dest] dest1 False by simp
      moreover have "\<forall>j. 1 \<le> j \<and> j < k \<longrightarrow> lookup (fs w') (candidate ?D ?b j) \<noteq> None"
      proof (intro allI impI)
        fix j assume j: "1 \<le> j \<and> j < k"
        with low have tk: "lookup (fs w) (candidate ?D ?b j) \<noteq> None" by simp
        have "candidate ?D ?b j \<noteq> s" using sdir by auto
        moreover have "candidate ?D ?b j \<noteq> tgt" using tk free by auto
        ultimately have "lookup (fs w1) (candidate ?D ?b j) \<noteq> None" using frame1 tk by simp
        with taken_stays[of "candidate ?D ?b j"] show "lookup (fs w') (candidate ?D ?b j) \<noteq> None"
          by simp
      qed
      ultimately show ?thesis using k by blast
    qed
    from a b c free tdir show ?thesis by (simp add: placed_def)
  qed
  have others: "list_all2 (placed dest w w') rest targets"
  proof (rule list.rel_mono_strong[OF pl])
    fix x y assume x: "x \<in> set rest" and y: "y \<in> set targets" and p: "placed dest w1 w' x y"
    from x s_notin have "x \<noteq> s" by auto
    moreover from x rest_dir tdir have "x \<noteq> tgt" by auto
    ultimately have lx: "lookup (fs w1) x = lookup (fs w) x" by (rule frame1)
    from y s_notin_t have "y \<noteq> s" by auto
    moreover from y tgt_notin have "y \<noteq> tgt" by auto
    ultimately have ly: "lookup (fs w1) y = lookup (fs w) y" by (rule frame1)
    from p lx ly show "placed dest w w' x y" by (simp add: placed_def)
  qed
  have frame: "\<forall>q. q \<notin> set (s # rest) \<and> q \<notin> set (tgt # targets) \<longrightarrow> lookup (fs w') q = lookup (fs w) q"
    using frame' frame1 by auto
  from first others dis tgt_notin frame show ?case
    unfolding final by (intro exI[of _ "tgt # targets"]) simp
qed

lemma rfind_dot_less: "rfind_dot xs = Some i \<Longrightarrow> i < length xs"
  by (induction xs arbitrary: i) (auto split: option.splits if_splits)

lemma rfind_dot_None_iff: "rfind_dot xs = None \<longleftrightarrow> CHR ''.'' \<notin> set xs"
  by (induction xs) (auto split: option.splits)

lemma rfind_dot_append:
  "rfind_dot (xs @ ys) =
     (case rfind_dot ys of Some j \<Rightarrow> Some (length xs + j) | None \<Rightarrow> rfind_dot xs)"
proof (induction xs)
  case Nil
  show ?case by (simp split: option.splits)
next
  case (Cons x xs)
  show ?case
  proof (cases "rfind_dot ys")
    case None
    with Cons show ?thesis by simp
  next
    case (Some j)
    with Cons show ?thesis by simp
  qed
qed

lemma digit_char_not_dot: "d < 10 \<Longrightarrow> digit_char d \<noteq> CHR ''.''"
proof
  assume d: "d < 10" and "digit_char d = CHR ''.''"
  then have "(of_char (char_of (48 + d) :: char) :: nat) = of_char CHR ''.''"
    by (simp add: digit_char_def)
  then have "(48 + d) mod 256 = (46 :: nat)" by simp
  with d show False by simp
qed

lemma str_nat_no_dot: "CHR ''.'' \<notin> set (str_nat n)"
proof (induction n rule: str_nat.induct)
  case (1 n)
  show ?case
  proof (cases "n < 10")
    case True
    then show ?thesis using digit_char_not_dot[of n] by (subst str_nat.simps) auto
  next
    case False
    with "1.IH" show ?thesis using digit_char_not_dot[of "n mod 10"]
      by (subst str_nat.simps) auto
  qed
qed

lemma suffix_no_dot: "rfind_dot (''_'' @ str_nat k) = None"
  unfolding rfind_dot_None_iff by (simp add: str_nat_no_dot)

lemma splitext_no_dot: "rfind_dot s = None \<Longrightarrow> splitext s = (s, [])"
  by (simp add: splitext_def)

lemma splitext_leading_dots:
  "rfind_dot s = Some i \<Longrightarrow> \<not> list_ex (\<lambda>c. c \<noteq> CHR ''.'') (take i s) \<Longrightarrow> splitext s = (s, [])"
  by (simp add: splitext_def)

lemma splitext_at:
  "rfind_dot (P @ E) = Some (length P) \<Longrightarrow> list_ex (\<lambda>c. c \<noteq> CHR ''.'') P \<Longrightarrow>
   splitext (P @ E) = (P, E)"
  by (simp add: splitext_def)

text \<open>A numbered name keeps the extension of the name it is made from.\<close>

lemma splitext_numbered:
  "snd (splitext (numbered (fst (splitext b)) k (snd (splitext b)))) = snd (splitext b)"
proof -
  define S where "S = ''_'' @ str_nat k"
  have S: "rfind_dot S = None" unfolding S_def by (rule suffix_no_dot)
  have num: "\<And>name ext. numbered name k ext = name @ S @ ext" by (simp add: numbered_def S_def)
  have Snd: "list_ex (\<lambda>c. c \<noteq> CHR ''.'') S" by (simp add: S_def)
  show ?thesis
  proof (cases "rfind_dot b")
    case None
    then have sp: "splitext b = (b, [])" by (rule splitext_no_dot)
    have "rfind_dot (b @ S) = None" by (simp add: rfind_dot_append S None)
    then have "splitext (b @ S) = (b @ S, [])" by (rule splitext_no_dot)
    then show ?thesis by (simp add: sp num)
  next
    case (Some i)
    then have i: "i < length b" by (rule rfind_dot_less)
    show ?thesis
    proof (cases "list_ex (\<lambda>c. c \<noteq> CHR ''.'') (take i b)")
      case False
      from Some False have sp: "splitext b = (b, [])" by (rule splitext_leading_dots)
      have r: "rfind_dot (b @ S) = Some i" by (simp add: rfind_dot_append S Some)
      have tk: "take i (b @ S) = take i b" using i by simp
      from False have "\<not> list_ex (\<lambda>c. c \<noteq> CHR ''.'') (take i (b @ S))" unfolding tk .
      from splitext_leading_dots[OF r this] have "splitext (b @ S) = (b @ S, [])" .
      then show ?thesis by (simp add: sp num)
    next
      case True
      with Some have sp: "splitext b = (take i b, drop i b)" by (simp add: splitext_def)
      have ext0: "rfind_dot (drop i b) = Some 0"
      proof (cases "rfind_dot (drop i b)")
        case None
        with Some rfind_dot_append[of "take i b" "drop i b"] have "rfind_dot (take i b) = Some i"
          by simp
        from rfind_dot_less[OF this] i show ?thesis by simp
      next
        case (Some j)
        with \<open>rfind_dot b = Some i\<close> rfind_dot_append[of "take i b" "drop i b"] i
        show ?thesis by simp
      qed
      define P where "P = take i b @ S"
      have r: "rfind_dot (P @ drop i b) = Some (length P)" by (simp add: rfind_dot_append ext0)
      have "list_ex (\<lambda>c. c \<noteq> CHR ''.'') P" using Snd by (auto simp: list_ex_iff P_def)
      from splitext_at[OF r this] have "splitext (P @ drop i b) = (P, drop i b)" .
      then show ?thesis by (simp add: sp num P_def)
    qed
  qed
qed

text \<open>
  C5.  In an environment where no stat and no move fails, let the sources be distinct regular
  files outside the destination folder, of the basename of the destination path, no two of
  them content duplicates and none a content duplicate of what the destination path holds.
  Relocated one after the other to that path, they end under pairwise different names in the
  destination folder, each with the extension of its source.  Every one of these names was
  free before, and is the destination path itself or a numbered name \<^verbatim>\<open>name_k.ext\<close>,
  \<open>k \<ge> 1\<close>, whose predecessors \<^verbatim>\<open>name_1.ext\<close> ... are all taken in the end.  Whatever
  the file system held at another path than a source is still there.
\<close>
theorem same_name_files_get_distinct_names:
  assumes "\<forall>p. \<not> stat_fails env p" and "\<forall>p q. \<not> move_fails env p q"
    and "lookup (fs w) (dirname dest) = Some Dir"
    and "distinct srcs"
    and "\<forall>s \<in> set srcs. basename s = basename dest \<and> dirname s \<noteq> dirname dest \<and>
                        (\<exists>c t. lookup (fs w) s = Some (File c t))"
    and "all_differ env (fs w) (dest # srcs)"
    and "w' = relocate_all env w srcs dest dup count"
  shows "\<exists>targets. length targets = length srcs \<and> distinct targets \<and>
           (\<forall>i < length srcs.
              dirname (targets ! i) = dirname dest \<and>
              snd (splitext (basename (targets ! i))) = snd (splitext (basename (srcs ! i))) \<and>
              (targets ! i = dest \<or>
               (\<exists>k\<ge>1. targets ! i = candidate (dirname dest) (basename dest) k \<and>
                  lookup (fs w') dest \<noteq> None \<and>
                  (\<forall>j. 1 \<le> j \<and> j < k \<longrightarrow>
                       lookup (fs w') (candidate (dirname dest) (basename dest) j) \<noteq> None))) \<and>
              lookup (fs w) (targets ! i) = None \<and>
              lookup (fs w') (targets ! i) = lookup (fs w) (srcs ! i) \<and>
              lookup (fs w') (srcs ! i) = None) \<and>
           (\<forall>q n. lookup (fs w) q = Some n \<and> q \<notin> set srcs \<longrightarrow> lookup (fs w') q = Some n)"
proof -
  from assms(5) have files: "\<forall>s \<in> set srcs. dirname s \<noteq> dirname dest \<and> (\<exists>c t. lookup (fs w) s = Some (File c t))"
    and names: "\<forall>s \<in> set srcs. basename s = basename dest" by auto
  from relocate_all_placed[OF assms(1,2,3,4) files assms(6), of dup count]
  obtain targets where pl: "list_all2 (placed dest w w') srcs targets" and dis: "distinct targets"
    and frame: "\<forall>q. q \<notin> set srcs \<and> q \<notin> set targets \<longrightarrow> lookup (fs w') q = lookup (fs w) q"
    unfolding assms(7) by blast
  from pl have len: "length targets = length srcs" by (simp add: list_all2_lengthD)
  have each: "dirname (targets ! i) = dirname dest \<and>
              snd (splitext (basename (targets ! i))) = snd (splitext (basename (srcs ! i))) \<and>
              (targets ! i = dest \<or>
               (\<exists>k\<ge>1. targets ! i = candidate (dirname dest) (basename dest) k \<and>
                  lookup (fs w') dest \<noteq> None \<and>
                  (\<forall>j. 1 \<le> j \<and> j < k \<longrightarrow>
                       lookup (fs w') (candidate (dirname dest) (basename dest) j) \<noteq> None))) \<and>
              lookup (fs w) (targets ! i) = None \<and>
              lookup (fs w') (targets ! i) = lookup (fs w) (srcs ! i) \<and>
              lookup (fs w') (srcs ! i) = None" if i: "i < length srcs" for i
  proof -
    from pl i have p: "placed dest w w' (srcs ! i) (targets ! i)" by (simp add: list_all2_nthD)
    from i names have b: "basename (srcs ! i) = basename dest" by simp
    have "snd (splitext (basename (targets ! i))) = snd (splitext (basename dest))"
    proof (cases "targets ! i = dest")
      case True then show ?thesis by simp
    next
      case False
      with p obtain k where "1 \<le> k" "targets ! i = candidate (dirname dest) (basename dest) k"
        by (auto simp: placed_def)
      then show ?thesis by (simp add: candidate_def splitext_numbered)
    qed
    with p b show ?thesis by (simp add: placed_def)
  qed
  have kept: "lookup (fs w') q = Some n" if "lookup (fs w) q = Some n" "q \<notin> set srcs" for q n
  proof -
    have "q \<notin> set targets"
    proof
      assume "q \<in> set targets"
      from list_all2_rightD[OF pl this] have "lookup (fs w) q = None" by (auto simp: placed_def)
      with that(1) show False by simp
    qed
    with frame that show ?thesis by simp
  qed
  from len dis each kept show ?thesis by blast
qed

text \<open>Three photos of one name and different content, and an empty year folder.\<close>

definition three_same_name :: world where
  "three_same_name =
     \<lparr>fs = [([''photo''], Dir), ([''photo'', ''2021''], Dir), ([''src''], Dir),
            ([''src'', ''1''], Dir), ([''src'', ''1'', ''a.jpg''], File ''one'' 0),
            ([''src'', ''2''], Dir), ([''src'', ''2'', ''a.jpg''], File ''two'' 0),
            ([''src'', ''3''], Dir), ([''src'', ''3'', ''a.jpg''], File ''three'' 0)],
      out = [], trace = []\<rparr>"

definition three_sources :: "path list" where
  "three_sources = [[''src'', ''1'', ''a.jpg''], [''src'', ''2'', ''a.jpg''], [''src'', ''3'', ''a.jpg'']]"

definition three_placed :: world where
  "three_placed =
     relocate_all plain_env three_same_name three_sources [''photo'', ''2021'', ''a.jpg'']
       [''dup'', ''Photo'', ''2021''] 0"

theorem same_name_files_get_distinct_names_witness:
  "(\<exists>t1 t2 t3. distinct [t1, t2, t3]
      \<and> map (lookup (fs three_placed)) [t1, t2, t3]
          = [Some (File ''one'' 0), Some (File ''two'' 0), Some (File ''three'' 0)]
      \<and> map dirname [t1, t2, t3] = [[''photo'', ''2021''], [''photo'', ''2021''], [''photo'', ''2021'']]
      \<and> map (\<lambda>t. snd (splitext (basename t))) [t1, t2, t3] = [''.jpg'', ''.jpg'', ''.jpg''])
   \<and> map (lookup (fs three_placed)) three_sources = [None, None, None]
   \<and> lookup (fs three_placed) [''photo'', ''2021''] = Some Dir"
proof -
  let ?dest = "[''photo'', ''2021'', ''a.jpg'']"
  have h3: "lookup (fs three_same_name) (dirname ?dest) = Some Dir" by code_simp
  have h4: "distinct three_sources" by (simp add: three_sources_def)
  have h5: "\<forall>s \<in> set three_sources. basename s = basename ?dest \<and> dirname s \<noteq> dirname ?dest \<and>
                        (\<exists>c t. lookup (fs three_same_name) s = Some (File c t))"
    by (simp add: three_sources_def three_same_name_def lookup_def basename_def dirname_def)
  have h6: "all_differ plain_env (fs three_same_name) (?dest # three_sources)" by code_simp
  from same_name_files_get_distinct_names
         [OF plain_env_no_faults(1,2) h3 h4 h5 h6 three_placed_def]
  obtain targets where len: "length targets = length three_sources" and dis: "distinct targets"
    and each: "\<forall>i < length three_sources.
              dirname (targets ! i) = dirname ?dest \<and>
              snd (splitext (basename (targets ! i))) = snd (splitext (basename (three_sources ! i))) \<and>
              lookup (fs three_placed) (targets ! i) = lookup (fs three_same_name) (three_sources ! i) \<and>
              lookup (fs three_placed) (three_sources ! i) = None"
    and kept: "\<forall>q n. lookup (fs three_same_name) q = Some n \<and> q \<notin> set three_sources
                 \<longrightarrow> lookup (fs three_placed) q = Some n"
    by blast
  from len obtain t1 t2 t3 where ts: "targets = [t1, t2, t3]"
    by (auto simp: three_sources_def length_Suc_conv)
  have e0: "splitext ''a.jpg'' = (''a'', ''.jpg'')" by code_simp
  from each[rule_format, of 0] each[rule_format, of 1] each[rule_format, of 2] dis
  have names: "distinct [t1, t2, t3]
      \<and> map (lookup (fs three_placed)) [t1, t2, t3]
          = [Some (File ''one'' 0), Some (File ''two'' 0), Some (File ''three'' 0)]
      \<and> map dirname [t1, t2, t3] = [[''photo'', ''2021''], [''photo'', ''2021''], [''photo'', ''2021'']]
      \<and> map (\<lambda>t. snd (splitext (basename t))) [t1, t2, t3] = [''.jpg'', ''.jpg'', ''.jpg'']"
    and gone: "map (lookup (fs three_placed)) three_sources = [None, None, None]"
    by (simp_all add: ts three_sources_def three_same_name_def lookup_def basename_def dirname_def e0)
  have folder: "lookup (fs three_placed) [''photo'', ''2021''] = Some Dir"
    using kept[rule_format, of "[''photo'', ''2021'']" Dir]
    by (simp add: three_sources_def three_same_name_def lookup_def)
  from names have "\<exists>t1 t2 t3. distinct [t1, t2, t3]
      \<and> map (lookup (fs three_placed)) [t1, t2, t3]
          = [Some (File ''one'' 0), Some (File ''two'' 0), Some (File ''three'' 0)]
      \<and> map dirname [t1, t2, t3] = [[''photo'', ''2021''], [''photo'', ''2021''], [''photo'', ''2021'']]
      \<and> map (\<lambda>t. snd (splitext (basename t))) [t1, t2, t3] = [''.jpg'', ''.jpg'', ''.jpg'']"
    by (intro exI[of _ t1] exI[of _ t2] exI[of _ t3])
  with gone folder show ?thesis by (intro conjI)
qed

text \<open>The names the three photos get, evaluated.\<close>

lemma three_placed_names:
  "map (lookup (fs three_placed))
     [[''photo'', ''2021'', ''a.jpg''], [''photo'', ''2021'', ''a_1.jpg''],
      [''photo'', ''2021'', ''a_2.jpg'']]
   = [Some (File ''one'' 0), Some (File ''two'' 0), Some (File ''three'' 0)]"
  by code_simp

end
